theory Spec2Isabelle
  imports Complex_Main "HOL-Library.Signed_Division"
begin

section \<open>The subscription manager: data model\<close>

text \<open>
  The development embeds the class \<open>SubscriptionManager\<close> (the second document of
  \<^verbatim>\<open>src/unnamed/part_001\<close>, lines 229 to 663). JavaScript numbers are modelled as
  unbounded integers: time stamps in milliseconds, counters, the poll cursor and the
  configuration values are all integral and far below \<open>2^53\<close>, where the arithmetic of
  a double is exact. The remainder operator \<^verbatim>\<open>%\<close> takes the sign of its dividend, which is
  \<open>smod\<close> on \<open>int\<close>; reading an array outside its bounds yields \<^verbatim>\<open>undefined\<close>, which is
  \<open>None\<close>. Every operation is embedded as one run from its call to its return, the
  collaborators answering in between; calls of the logger are left out.

  A stream id that is \<^verbatim>\<open>null\<close> is \<open>None\<close>; the test \<^verbatim>\<open>!streamId\<close> also rejects the empty
  string.
\<close>

datatype error = Rejected string | TypeError string

record message =
  timestamp :: int

text \<open>
  A channel object of the channel registry. Only the three properties the manager reads
  are kept. A channel whose \<^verbatim>\<open>messages\<close> property is missing is one with the empty list:
  the manager only ever tests \<^verbatim>\<open>channel.messages?.length > 0\<close>.
\<close>

record channel =
  streamId :: string
  password :: "string option"
  messages :: "message list"

record activity =
  lastMessageTime :: int
  unreadCount :: int
  lastChecked :: int

record poll_config =
  POLL_INTERVAL :: int
  POLL_BATCH_SIZE :: int
  POLL_STAGGER_DELAY :: int
  MIN_POLL_INTERVAL :: int
  MAX_CONCURRENT_SUBS :: int
  ACTIVITY_CHECK_MESSAGES :: int

text \<open>
  An activity handler is a callback; it is identified by a number, and what it does when
  called belongs to the environment. The handlers object of the active subscription is
  stored and never read, so it is an opaque number as well.
\<close>

type_synonym handler = nat

text \<open>
  The fields of the constructor (lines 230 to 255). The timer handle
  \<^verbatim>\<open>backgroundPoller\<close> is left out: none of the operations embedded below reads or
  writes it.
\<close>

record manager =
  activeChannelId :: "string option"
  activeSubscriptionHandlers :: "nat option"
  channelActivity :: "string \<rightharpoonup> activity"
  activityHandlers :: "handler list"
  config :: poll_config
  pollIndex :: int
  isPolling :: bool

definition default_config :: poll_config where
  "default_config =
     \<lparr>POLL_INTERVAL = 30000, POLL_BATCH_SIZE = 3, POLL_STAGGER_DELAY = 2000,
      MIN_POLL_INTERVAL = 10000, MAX_CONCURRENT_SUBS = 1, ACTIVITY_CHECK_MESSAGES = 3\<rparr>"

definition initial_manager :: manager where
  "initial_manager =
     \<lparr>activeChannelId = None, activeSubscriptionHandlers = None,
      channelActivity = Map.empty, activityHandlers = [], config = default_config,
      pollIndex = 0, isPolling = False\<rparr>"

section \<open>Collaborators and the log of calls\<close>

text \<open>
  The manager calls collaborators that are not part of it: the channel registry
  (\<^verbatim>\<open>channelManager\<close>), the transport (\<^verbatim>\<open>streamrController\<close>), the clock, the registered
  activity handlers and the persistent storage. Each outgoing call is a \<open>request\<close>. The log records, in order, when
  a request is issued and when it settles (\<open>True\<close>: fulfilled or returned, \<open>False\<close>:
  rejected or thrown), each time together with the manager's fields at that moment,
  which is what the collaborator or any other task could observe of the manager then.
  The log and the number of clock readings are history variables: nothing in the
  manager reads them.
\<close>

datatype request =
    SubscribeToChannel string "string option"
  | Unsubscribe string
  | FetchOlderHistory string int int int "string option"
  | CallHandler handler string activity
  | StaggerDelay int
  | SetLastOpenedChannel "string option"

datatype event = Issued request | Settled request bool

record world =
  trace :: "(event \<times> manager) list"
  ticks :: nat

type_synonym state = "manager \<times> world"

text \<open>
  The answers of the collaborators. The registry calls are plain look-ups; a transport
  call answers \<open>None\<close> (or \<open>Inr\<close>) when its promise is fulfilled and with the error when it
  is rejected; \<open>Date_now k\<close> is the value of the \<open>k\<close>-th reading of the clock since the
  start of the log; \<open>handlerThrows\<close> tells whether a handler throws on a notification.
  Handlers are observers: they do not call back into the manager. The last two fields
  are the persistent storage (\<^verbatim>\<open>secureStorage\<close>): the channel it has as the last opened
  one, and the answer of the awaited call that sets it.
\<close>

record env =
  getAllChannels :: "channel list"
  getChannel :: "string \<Rightarrow> channel option"
  subscribeToChannel :: "string \<Rightarrow> string option \<Rightarrow> error option"
  unsubscribe :: "string \<Rightarrow> error option"
  fetchOlderHistory :: "string \<Rightarrow> int \<Rightarrow> int \<Rightarrow> int \<Rightarrow> string option \<Rightarrow> error + message list"
  Date_now :: "nat \<Rightarrow> int"
  handlerThrows :: "handler \<Rightarrow> string \<Rightarrow> activity \<Rightarrow> bool"
  getLastOpenedChannel :: "string option"
  setLastOpenedChannel :: "string option \<Rightarrow> error option"

definition emit :: "event \<Rightarrow> state \<Rightarrow> state" where
  "emit ev s = (fst s, (snd s)\<lparr>trace := trace (snd s) @ [(ev, fst s)]\<rparr>)"

definition perform :: "request \<Rightarrow> bool \<Rightarrow> state \<Rightarrow> state" where
  "perform rq ok s = emit (Settled rq ok) (emit (Issued rq) s)"

definition now :: "env \<Rightarrow> state \<Rightarrow> int \<times> state" where
  "now E s = (Date_now E (ticks (snd s)), (fst s, (snd s)\<lparr>ticks := Suc (ticks (snd s))\<rparr>))"

definition falsy :: "string option \<Rightarrow> bool" where
  "falsy sid = (case sid of None \<Rightarrow> True | Some x \<Rightarrow> x = [])"

definition setActivity :: "string \<Rightarrow> activity \<Rightarrow> state \<Rightarrow> state" where
  "setActivity sid a s = ((fst s)\<lparr>channelActivity := (channelActivity (fst s))(sid \<mapsto> a)\<rparr>, snd s)"

section \<open>Activity tracking\<close>

text \<open>
  \<^verbatim>\<open>notifyActivityHandlers\<close> (lines 523 to 531): every handler is called in registration
  order; an exception of a handler is caught and logged, and the loop goes on.
\<close>

fun notifyLoop :: "env \<Rightarrow> handler list \<Rightarrow> string \<Rightarrow> activity \<Rightarrow> state \<Rightarrow> state" where
  "notifyLoop E [] sid a s = s"
| "notifyLoop E (h # hs) sid a s =
     (if handlerThrows E h sid a
      then notifyLoop E hs sid a (perform (CallHandler h sid a) False s)
      else notifyLoop E hs sid a (perform (CallHandler h sid a) True s))"

definition notifyActivityHandlers :: "env \<Rightarrow> string \<Rightarrow> activity \<Rightarrow> state \<Rightarrow> state" where
  "notifyActivityHandlers E sid a s = notifyLoop E (activityHandlers (fst s)) sid a s"

text \<open>
  The counting loop of \<^verbatim>\<open>checkChannelActivity\<close> (lines 466 to 476): the accumulator is
  the pair \<^verbatim>\<open>(newCount, latestTime)\<close>, and \<open>t0\<close> is \<^verbatim>\<open>currentActivity.lastMessageTime\<close>.
\<close>

fun countNew :: "int \<Rightarrow> message list \<Rightarrow> int \<times> int \<Rightarrow> int \<times> int" where
  "countNew t0 [] acc = acc"
| "countNew t0 (msg # msgs) (newCount, latestTime) =
     (if timestamp msg > t0
      then countNew t0 msgs
             (newCount + 1, if timestamp msg > latestTime then timestamp msg else latestTime)
      else countNew t0 msgs (newCount, latestTime))"

definition orNull :: "string option \<Rightarrow> string option" where
  "orNull p = (if falsy p then None else p)"

definition currentActivityOf :: "manager \<Rightarrow> string \<Rightarrow> activity" where
  "currentActivityOf m sid =
     (case channelActivity m sid of
        Some a \<Rightarrow> a
      | None \<Rightarrow> \<lparr>lastMessageTime = 0, unreadCount = 0, lastChecked = 0\<rparr>)"

text \<open>
  \<^verbatim>\<open>checkChannelActivity\<close> (lines 442 to 498). The clock is read once for the argument of
  the fetch and once more for \<^verbatim>\<open>lastChecked\<close>, on either path. A rejected fetch is
  rethrown after the record is written: the result is \<open>Inl\<close>.
\<close>

definition checkChannelActivity :: "env \<Rightarrow> channel \<Rightarrow> state \<Rightarrow> (error + unit) \<times> state" where
  "checkChannelActivity E ch s =
     (let sid = streamId ch;
          pw = orNull (password ch);
          currentActivity = currentActivityOf (fst s) sid
      in case now E s of (t, s1) \<Rightarrow>
        (let rq = FetchOlderHistory sid 0 t (ACTIVITY_CHECK_MESSAGES (config (fst s1))) pw
         in case fetchOlderHistory E sid 0 t (ACTIVITY_CHECK_MESSAGES (config (fst s1))) pw of
              Inr msgs \<Rightarrow>
                (case countNew (lastMessageTime currentActivity) msgs
                        (0, lastMessageTime currentActivity) of (newCount, latestTime) \<Rightarrow>
                 (case now E (perform rq True s1) of (t', s2) \<Rightarrow>
                   (let newActivity =
                          \<lparr>lastMessageTime = latestTime,
                           unreadCount = unreadCount currentActivity + newCount,
                           lastChecked = t'\<rparr>;
                        s3 = setActivity sid newActivity s2
                    in if newCount > 0
                       then (Inr (), notifyActivityHandlers E sid newActivity s3)
                       else (Inr (), s3))))
            | Inl e \<Rightarrow>
                (case now E (perform rq False s1) of (t', s2) \<Rightarrow>
                   (Inl e, setActivity sid (currentActivity\<lparr>lastChecked := t'\<rparr>) s2))))"

section \<open>The active channel\<close>

text \<open>
  The body of the \<^verbatim>\<open>try\<close> block of \<^verbatim>\<open>downgradeToBackground\<close> (lines 304 to 317), in
  its two steps: storing the activity state (lines 305 to 313) and unsubscribing. The
  record is written only when the registry has the channel with at least one message in
  memory. \<^verbatim>\<open>latestMsg.timestamp || Date.now()\<close> reads the clock only when the time stamp
  is zero; \<^verbatim>\<open>lastChecked\<close> reads it in any case. A rejected unsubscribe leaves
  the block with the error.
\<close>

definition storeActivityState :: "env \<Rightarrow> string \<Rightarrow> state \<Rightarrow> state" where
  "storeActivityState E sid s =
     (case getChannel E sid of
        None \<Rightarrow> s
      | Some ch \<Rightarrow>
          if int (length (messages ch)) > 0
          then (let latestMsg = last (messages ch)
                in case (if timestamp latestMsg \<noteq> 0 then (timestamp latestMsg, s) else now E s) of
                     (lmt, sa) \<Rightarrow>
                       (case now E sa of (lc, sb) \<Rightarrow>
                          setActivity sid
                            \<lparr>lastMessageTime = lmt, unreadCount = 0, lastChecked = lc\<rparr> sb))
          else s)"

definition downgradeBody :: "env \<Rightarrow> string \<Rightarrow> state \<Rightarrow> (error + unit) \<times> state" where
  "downgradeBody E sid s =
     (let s1 = storeActivityState E sid s
      in case unsubscribe E sid of
           None \<Rightarrow> (Inr (), perform (Unsubscribe sid) True s1)
         | Some e \<Rightarrow> (Inl e, perform (Unsubscribe sid) False s1))"

text \<open>
  \<^verbatim>\<open>downgradeToBackground\<close> (lines 300 to 321): the \<^verbatim>\<open>catch\<close> clause logs the error and
  returns normally.
\<close>

definition downgradeToBackground :: "env \<Rightarrow> string option \<Rightarrow> state \<Rightarrow> (error + unit) \<times> state" where
  "downgradeToBackground E sidopt s =
     (case sidopt of
        None \<Rightarrow> (Inr (), s)
      | Some sid \<Rightarrow>
          if sid = [] then (Inr (), s)
          else (case downgradeBody E sid s of
                  (Inl e, s') \<Rightarrow> (Inr (), s')
                | (Inr u, s') \<Rightarrow> (Inr u, s')))"

text \<open>
  \<^verbatim>\<open>setActiveChannel\<close> (lines 264 to 294). The \<^verbatim>\<open>catch\<close> clause around the subscription
  logs the error and throws it again.
\<close>

definition setActiveChannel ::
  "env \<Rightarrow> string option \<Rightarrow> string option \<Rightarrow> nat option \<Rightarrow> state \<Rightarrow> (error + unit) \<times> state" where
  "setActiveChannel E sidopt pw handlers s =
     (case sidopt of
        None \<Rightarrow> (Inr (), s)
      | Some sid \<Rightarrow>
          if sid = [] then (Inr (), s)
          else if activeChannelId (fst s) = Some sid then (Inr (), s)
          else (case (if \<not> falsy (activeChannelId (fst s))
                      then downgradeToBackground E (activeChannelId (fst s)) s
                      else (Inr (), s)) of
                  (Inl e, s1) \<Rightarrow> (Inl e, s1)
                | (Inr u, s1) \<Rightarrow>
                    (let s2 = ((fst s1)\<lparr>activeChannelId := Some sid,
                                         activeSubscriptionHandlers := handlers\<rparr>, snd s1)
                     in case subscribeToChannel E sid pw of
                          None \<Rightarrow> (Inr (), perform (SubscribeToChannel sid pw) True s2)
                        | Some e \<Rightarrow> (Inl e, perform (SubscribeToChannel sid pw) False s2))))"

text \<open>\<^verbatim>\<open>clearActiveChannel\<close> (lines 326 to 332).\<close>

definition clearActiveChannel :: "env \<Rightarrow> state \<Rightarrow> (error + unit) \<times> state" where
  "clearActiveChannel E s =
     (if \<not> falsy (activeChannelId (fst s))
      then (case downgradeToBackground E (activeChannelId (fst s)) s of
              (Inl e, s1) \<Rightarrow> (Inl e, s1)
            | (Inr u, s1) \<Rightarrow>
                (Inr (), ((fst s1)\<lparr>activeChannelId := None,
                                    activeSubscriptionHandlers := None\<rparr>, snd s1)))
      else (Inr (), s))"

section \<open>The background poller\<close>

definition backgroundChannels :: "channel list \<Rightarrow> string option \<Rightarrow> channel list" where
  "backgroundChannels channels active = filter (\<lambda>c. Some (streamId c) \<noteq> active) channels"

definition at_index :: "'a list \<Rightarrow> int \<Rightarrow> 'a option" where
  "at_index xs i = (if 0 \<le> i \<and> i < int (length xs) then Some (xs ! nat i) else None)"

text \<open>
  The selection of the batch and the new cursor (lines 399 to 408), for the batch size
  \<open>B\<close> of the configuration, the cursor \<open>p\<close> and the background channels \<open>bg\<close>.
\<close>

definition selectBatch :: "int \<Rightarrow> int \<Rightarrow> channel list \<Rightarrow> channel option list \<times> int" where
  "selectBatch B p bg =
     (let batchSize = min B (int (length bg))
      in (map (\<lambda>i. at_index bg ((p + int i) smod int (length bg))) [0..<nat batchSize],
          (p + batchSize) smod int (length bg)))"

text \<open>
  The body of the loop over the batch (lines 412 to 431) for an entry that is a channel;
  \<open>isLast\<close> tells whether the entry is the last one of the batch. A channel inside its
  cool-down is skipped together with the stagger delay; an error of the check is caught
  and logged. The delay is awaited unless the entry is the last of the batch.
\<close>

definition pollOne :: "env \<Rightarrow> channel \<Rightarrow> bool \<Rightarrow> state \<Rightarrow> state" where
  "pollOne E ch isLast s =
     (case now E s of (t, s1) \<Rightarrow>
        (let timeSinceLastCheck =
               t - (case channelActivity (fst s) (streamId ch) of
                      None \<Rightarrow> 0
                    | Some a \<Rightarrow> lastChecked a)
         in if timeSinceLastCheck < MIN_POLL_INTERVAL (config (fst s1))
            then s1
            else (case checkChannelActivity E ch s1 of (r, s2) \<Rightarrow>
                    if \<not> isLast
                    then perform (StaggerDelay (POLL_STAGGER_DELAY (config (fst s2)))) True s2
                    else s2)))"

text \<open>
  The loop over the batch (lines 411 to 432). Reading \<^verbatim>\<open>streamId\<close> of an undefined entry
  throws a type error, which nothing in the loop catches.
\<close>

fun pollLoop :: "env \<Rightarrow> channel option list \<Rightarrow> state \<Rightarrow> (error + unit) \<times> state" where
  "pollLoop E [] s = (Inr (), s)"
| "pollLoop E (None # cs) s = (Inl (TypeError ''channel is undefined''), s)"
| "pollLoop E (Some ch # cs) s = pollLoop E cs (pollOne E ch (cs = []) s)"

text \<open>The \<^verbatim>\<open>try\<close> block of \<^verbatim>\<open>pollBackgroundChannels\<close> (lines 391 to 432).\<close>

definition pollBody :: "env \<Rightarrow> state \<Rightarrow> (error + unit) \<times> state" where
  "pollBody E s =
     (let channels = getAllChannels E;
          bg = backgroundChannels channels (activeChannelId (fst s))
      in if int (length bg) = 0 then (Inr (), s)
         else (case selectBatch (POLL_BATCH_SIZE (config (fst s))) (pollIndex (fst s)) bg of
                 (channelsToPoll, p') \<Rightarrow>
                   pollLoop E channelsToPoll ((fst s)\<lparr>pollIndex := p'\<rparr>, snd s)))"

text \<open>
  \<^verbatim>\<open>pollBackgroundChannels\<close> (lines 382 to 436): the guard, and the \<^verbatim>\<open>finally\<close> clause
  that releases it whatever the block did.
\<close>

definition pollBackgroundChannels :: "env \<Rightarrow> state \<Rightarrow> (error + unit) \<times> state" where
  "pollBackgroundChannels E s =
     (if isPolling (fst s) then (Inr (), s)
      else (case pollBody E ((fst s)\<lparr>isPolling := True\<rparr>, snd s) of
              (r, s') \<Rightarrow> (r, ((fst s')\<lparr>isPolling := False\<rparr>, snd s'))))"

text \<open>\<^verbatim>\<open>forcePollChannel\<close> (lines 642 to 653).\<close>

definition forcePollChannel :: "env \<Rightarrow> string \<Rightarrow> state \<Rightarrow> (error + unit) \<times> state" where
  "forcePollChannel E sid s =
     (case getChannel E sid of
        None \<Rightarrow> (Inr (), s)
      | Some ch \<Rightarrow>
          if Some sid = activeChannelId (fst s) then (Inr (), s)
          else (case checkChannelActivity E ch s of
                  (Inl e, s') \<Rightarrow> (Inr (), s')
                | (Inr u, s') \<Rightarrow> (Inr u, s')))"

section \<open>Removing a channel, changing the configuration\<close>






section \<open>Reading the log\<close>

text \<open>The requests issued, in order, and the events a run has added to the log.\<close>

fun issued :: "(event \<times> manager) list \<Rightarrow> request list" where
  "issued [] = []"
| "issued ((Issued rq, m) # es) = rq # issued es"
| "issued ((Settled rq ok, m) # es) = issued es"

definition added :: "state \<Rightarrow> state \<Rightarrow> (event \<times> manager) list" where
  "added s s' = drop (length (trace (snd s))) (trace (snd s'))"


text \<open>
  The fetches and the subscriptions among the requests, and the notifications as the
  handlers receive them.
\<close>

fun isFetch :: "request \<Rightarrow> bool" where
  "isFetch (FetchOlderHistory sid part before limit pw) = True"
| "isFetch rq = False"

definition fetches :: "(event \<times> manager) list \<Rightarrow> request list" where
  "fetches es = filter isFetch (issued es)"

fun isSubscribe :: "request \<Rightarrow> bool" where
  "isSubscribe (SubscribeToChannel sid pw) = True"
| "isSubscribe rq = False"

fun notified :: "request list \<Rightarrow> (handler \<times> string \<times> activity) list" where
  "notified [] = []"
| "notified (CallHandler h sid a # rs) = (h, sid, a) # notified rs"
| "notified (rq # rs) = notified rs"

section \<open>Consecutive cycles, and what a cycle has to fetch\<close>



text \<open>
  The entries of a batch that the loop reaches: those before the first undefined one.
\<close>

fun reached :: "'a option list \<Rightarrow> 'a list" where
  "reached [] = []"
| "reached (None # cs) = []"
| "reached (Some c # cs) = c # reached cs"

definition lastCheckedOf :: "manager \<Rightarrow> string \<rightharpoonup> int" where
  "lastCheckedOf m sid = map_option lastChecked (channelActivity m sid)"

text \<open>
  What the specification asks of the loop over a batch, written without a word about
  what the fetches answer. The channels are taken in order; \<open>lc\<close> gives the time of the
  last check of every channel and \<open>k\<close> counts the clock readings. A channel whose last
  check is less than the minimum poll interval before the reading of its turn is passed
  over. For any other channel the history is fetched, with the next reading as the time
  bound, and its last check becomes the reading after that, whether the fetch succeeds
  or fails. The result is the list of the fetches, the times of the last checks and the
  number of clock readings at the end.
\<close>

fun expectedChecks ::
  "env \<Rightarrow> poll_config \<Rightarrow> (string \<rightharpoonup> int) \<Rightarrow> nat \<Rightarrow> channel list \<Rightarrow>
     request list \<times> (string \<rightharpoonup> int) \<times> nat" where
  "expectedChecks E cfg lc k [] = ([], lc, k)"
| "expectedChecks E cfg lc k (ch # chs) =
     (if Date_now E k - (case lc (streamId ch) of None \<Rightarrow> 0 | Some t \<Rightarrow> t) < MIN_POLL_INTERVAL cfg
      then expectedChecks E cfg lc (Suc k) chs
      else (case expectedChecks E cfg (lc(streamId ch \<mapsto> Date_now E (k + 2))) (k + 3) chs of
              (rqs, lc', k') \<Rightarrow>
                (FetchOlderHistory (streamId ch) 0 (Date_now E (Suc k))
                   (ACTIVITY_CHECK_MESSAGES cfg) (orNull (password ch)) # rqs, lc', k')))"

section \<open>Concrete scenarios\<close>

text \<open>
  An environment in which every transport call succeeds, the registry is empty and the
  clock shows \<open>1000 + k\<close> at its \<open>k\<close>-th reading; a manager just constructed with an empty
  log. The scenarios below change single fields of these.
\<close>

definition quiet_env :: env where
  "quiet_env =
     \<lparr>getAllChannels = [], getChannel = (\<lambda>sid. None),
      subscribeToChannel = (\<lambda>sid pw. None), unsubscribe = (\<lambda>sid. None),
      fetchOlderHistory = (\<lambda>sid part before limit pw. Inr []),
      Date_now = (\<lambda>k. 1000 + int k), handlerThrows = (\<lambda>h sid a. False),
      getLastOpenedChannel = None, setLastOpenedChannel = (\<lambda>sid. None)\<rparr>"

definition fresh :: state where
  "fresh = (initial_manager, \<lparr>trace = [], ticks = 0\<rparr>)"

definition chan :: "string \<Rightarrow> int list \<Rightarrow> channel" where
  "chan sid ts = \<lparr>streamId = sid, password = None, messages = map (\<lambda>t. \<lparr>timestamp = t\<rparr>) ts\<rparr>"

text \<open>
  The scenario of the activity check: channel \<open>ch1\<close> has \<open>lastMessageTime = 100\<close> and five
  unread messages, one handler is registered, and the fetch answers with the time
  stamps 90, 110 and 120.
\<close>

definition history_env :: "int list \<Rightarrow> env" where
  "history_env ts =
     quiet_env\<lparr>fetchOlderHistory :=
       (\<lambda>sid part before limit pw. Inr (map (\<lambda>t. \<lparr>timestamp = t\<rparr>) ts))\<rparr>"

definition failing_env :: env where
  "failing_env =
     quiet_env\<lparr>fetchOlderHistory := (\<lambda>sid part before limit pw. Inl (Rejected ''offline'')),
               unsubscribe := (\<lambda>sid. Some (Rejected ''offline'')),
               subscribeToChannel := (\<lambda>sid pw. Some (Rejected ''offline''))\<rparr>"

definition ch1_state :: state where
  "ch1_state =
     (initial_manager\<lparr>channelActivity :=
         [''ch1'' \<mapsto> \<lparr>lastMessageTime = 100, unreadCount = 5, lastChecked = 0\<rparr>],
        activityHandlers := [7]\<rparr>,
      \<lparr>trace = [], ticks = 0\<rparr>)"

definition registry_env :: "channel list \<Rightarrow> env \<Rightarrow> env" where
  "registry_env cs E =
     E\<lparr>getAllChannels := cs, getChannel := (\<lambda>sid. find (\<lambda>c. streamId c = sid) cs)\<rparr>"

definition busy_state :: state where
  "busy_state =
     ((fst ch1_state)\<lparr>activeChannelId := Some ''ch1'', pollIndex := 2, isPolling := True\<rparr>,
      snd ch1_state)"


text \<open>A registry of five channels without messages in memory.\<close>

definition five_channels :: "channel list" where
  "five_channels = map (\<lambda>sid. chan sid []) [''a'', ''b'', ''c'', ''d'', ''e'']"

text \<open>
  The poller at work: the registry holds the five channels, \<open>d\<close> is the active one, the
  cursor is at 3 and the clock starts at 50000, past every cool-down.
\<close>

definition poll_env :: env where
  "poll_env = (registry_env five_channels quiet_env)\<lparr>Date_now := (\<lambda>k. 50000 + int k)\<rparr>"

definition poll_state :: state where
  "poll_state = ((fst fresh)\<lparr>activeChannelId := Some ''d'', pollIndex := 3\<rparr>, snd fresh)"

definition offline :: "string \<Rightarrow> int \<Rightarrow> int \<Rightarrow> int \<Rightarrow> string option \<Rightarrow> error + message list" where
  "offline sid part before limit pw = Inl (Rejected ''offline'')"





section \<open>The log and the activity check\<close>

lemma fst_emit: "fst (emit ev s) = fst s"
  by (simp add: emit_def)

lemma fst_perform: "fst (perform rq ok s) = fst s"
  by (simp add: perform_def fst_emit)

lemma trace_perform:
  "trace (snd (perform rq ok s)) = trace (snd s) @ [(Issued rq, fst s), (Settled rq ok, fst s)]"
  by (simp add: perform_def emit_def)

lemma ticks_perform: "ticks (snd (perform rq ok s)) = ticks (snd s)"
  by (simp add: perform_def emit_def)

lemma fst_notifyLoop: "fst (notifyLoop E hs sid a s) = fst s"
  by (induction hs arbitrary: s) (simp_all add: fst_perform)

lemma ticks_notifyLoop: "ticks (snd (notifyLoop E hs sid a s)) = ticks (snd s)"
  by (induction hs arbitrary: s) (simp_all add: ticks_perform)

lemma trace_notifyLoop:
  "trace (snd (notifyLoop E hs sid a s)) =
     trace (snd s) @ concat (map (\<lambda>h. [(Issued (CallHandler h sid a), fst s),
                                        (Settled (CallHandler h sid a) (\<not> handlerThrows E h sid a), fst s)]) hs)"
  by (induction hs arbitrary: s) (simp_all add: trace_perform fst_perform)

lemma Max_ins2:
  "finite S \<Longrightarrow> Max (insert (a::int) (insert b S)) = Max (insert (max a b) S)"
  by (cases "S = {}") (simp_all add: max.assoc)

lemma countNew_eq:
  "countNew t0 msgs (n, lt) =
     (n + int (length (filter (\<lambda>m. t0 < timestamp m) msgs)),
      Max (insert lt (timestamp ` {m \<in> set msgs. t0 < timestamp m})))"
proof (induction msgs arbitrary: n lt)
  case Nil
  then show ?case by simp
next
  case (Cons m ms)
  let ?S = "timestamp ` {x \<in> set ms. t0 < timestamp x}"
  have fin: "finite ?S" by simp
  show ?case
  proof (cases "t0 < timestamp m")
    case True
    have eq: "timestamp ` {x \<in> set (m # ms). t0 < timestamp x} = insert (timestamp m) ?S"
      using True by auto
    have "Max (insert (max lt (timestamp m)) ?S) = Max (insert lt (insert (timestamp m) ?S))"
      using fin by (simp only: Max_ins2)
    moreover have "(if lt < timestamp m then timestamp m else lt) = max lt (timestamp m)"
      by (simp add: max_def)
    ultimately show ?thesis
      unfolding eq using True Cons.IH by (simp del: Max_insert)
  next
    case False
    have eq: "timestamp ` {x \<in> set (m # ms). t0 < timestamp x} = ?S"
      using False by auto
    show ?thesis unfolding eq using False Cons.IH by simp
  qed
qed


lemmas check_defs = checkChannelActivity_def now_def perform_def emit_def setActivity_def
  notifyActivityHandlers_def Let_def

lemma check_fail:
  assumes "fetchOlderHistory E (streamId ch) 0 (Date_now E (ticks (snd s)))
             (ACTIVITY_CHECK_MESSAGES (config (fst s))) (orNull (password ch)) = Inl e"
  shows "checkChannelActivity E ch s =
     (Inl e,
      ((fst s)\<lparr>channelActivity := (channelActivity (fst s))(streamId ch \<mapsto>
          (currentActivityOf (fst s) (streamId ch))\<lparr>lastChecked := Date_now E (Suc (ticks (snd s)))\<rparr>)\<rparr>,
       (snd s)\<lparr>trace := trace (snd s) @
           [(Issued (FetchOlderHistory (streamId ch) 0 (Date_now E (ticks (snd s)))
               (ACTIVITY_CHECK_MESSAGES (config (fst s))) (orNull (password ch))), fst s),
            (Settled (FetchOlderHistory (streamId ch) 0 (Date_now E (ticks (snd s)))
               (ACTIVITY_CHECK_MESSAGES (config (fst s))) (orNull (password ch))) False, fst s)],
          ticks := Suc (Suc (ticks (snd s)))\<rparr>))"
  using assms by (simp add: check_defs)


lemma check_ok:
  assumes "fetchOlderHistory E (streamId ch) 0 (Date_now E (ticks (snd s)))
             (ACTIVITY_CHECK_MESSAGES (config (fst s))) (orNull (password ch)) = Inr msgs"
  shows "checkChannelActivity E ch s =
     (let cur = currentActivityOf (fst s) (streamId ch);
          rq = FetchOlderHistory (streamId ch) 0 (Date_now E (ticks (snd s)))
                 (ACTIVITY_CHECK_MESSAGES (config (fst s))) (orNull (password ch));
          new = \<lparr>lastMessageTime =
                   Max (insert (lastMessageTime cur)
                         (timestamp ` {m \<in> set msgs. lastMessageTime cur < timestamp m})),
                 unreadCount = unreadCount cur +
                   int (length (filter (\<lambda>m. lastMessageTime cur < timestamp m) msgs)),
                 lastChecked = Date_now E (Suc (ticks (snd s)))\<rparr>;
          m' = (fst s)\<lparr>channelActivity := (channelActivity (fst s))(streamId ch \<mapsto> new)\<rparr>
      in (Inr (),
          (m', (snd s)\<lparr>trace := trace (snd s) @ [(Issued rq, fst s), (Settled rq True, fst s)] @
                  (if filter (\<lambda>m. lastMessageTime cur < timestamp m) msgs \<noteq> []
                   then concat (map (\<lambda>h. [(Issued (CallHandler h (streamId ch) new), m'),
                          (Settled (CallHandler h (streamId ch) new)
                             (\<not> handlerThrows E h (streamId ch) new), m')]) (activityHandlers (fst s)))
                   else []),
                ticks := Suc (Suc (ticks (snd s)))\<rparr>)))"
proof -
  have nl: "notifyLoop E hs sid a st =
      (fst st, (snd st)\<lparr>trace := trace (snd st) @ concat (map (\<lambda>h. [(Issued (CallHandler h sid a), fst st),
                          (Settled (CallHandler h sid a) (\<not> handlerThrows E h sid a), fst st)]) hs)\<rparr>)"
    for hs sid a st
    by (rule prod_eqI) (simp_all add: fst_notifyLoop trace_notifyLoop ticks_notifyLoop world.equality)
  show ?thesis
    using assms by (simp add: check_defs countNew_eq nl del: Max_insert)
qed


lemma added_append: "trace (snd s') = trace (snd s) @ es \<Longrightarrow> added s s' = es"
  by (simp add: added_def)

lemma issued_append: "issued (xs @ ys) = issued xs @ issued ys"
  by (induction xs rule: issued.induct) simp_all

lemma notified_append: "notified (xs @ ys) = notified xs @ notified ys"
  by (induction xs rule: notified.induct) simp_all

lemma notified_calls:
  "notified (issued (concat (map (\<lambda>h. [(Issued (CallHandler h sid a), m),
       (Settled (CallHandler h sid a) (ok h), m)]) hs))) = map (\<lambda>h. (h, sid, a)) hs"
  by (induction hs) simp_all

text \<open>
  Claim C2. Let the channel have the activity record \<open>a\<close> and let the fetch succeed with
  the messages \<open>M\<close>. Then the check returns normally and leaves the record with
  \<open>unreadCount\<close> raised by the number of messages of \<open>M\<close> newer than
  \<open>lastMessageTime a\<close>, with \<open>lastMessageTime\<close> the maximum of the old value and the time
  stamps of those messages, and with \<open>lastChecked\<close> the clock reading taken after the
  fetch (the second reading of the check). The handlers are notified exactly when some
  message is newer: each entry of the handler list once, in order, with the stream id
  and the updated record.
\<close>

theorem C2_check_counts_new_messages:
  assumes rec: "channelActivity (fst s) (streamId ch) = Some a"
    and fetch: "fetchOlderHistory E (streamId ch) 0 (Date_now E (ticks (snd s)))
             (ACTIVITY_CHECK_MESSAGES (config (fst s))) (orNull (password ch)) = Inr M"
  shows "fst (checkChannelActivity E ch s) = Inr () \<and>
    channelActivity (fst (snd (checkChannelActivity E ch s))) (streamId ch) =
      Some \<lparr>lastMessageTime =
               Max (insert (lastMessageTime a) (timestamp ` {m \<in> set M. lastMessageTime a < timestamp m})),
             unreadCount = unreadCount a + int (length (filter (\<lambda>m. lastMessageTime a < timestamp m) M)),
             lastChecked = Date_now E (Suc (ticks (snd s)))\<rparr> \<and>
    notified (issued (added s (snd (checkChannelActivity E ch s)))) =
      (if \<exists>m \<in> set M. lastMessageTime a < timestamp m
       then map (\<lambda>h. (h, streamId ch,
              \<lparr>lastMessageTime =
                 Max (insert (lastMessageTime a) (timestamp ` {m \<in> set M. lastMessageTime a < timestamp m})),
               unreadCount = unreadCount a + int (length (filter (\<lambda>m. lastMessageTime a < timestamp m) M)),
               lastChecked = Date_now E (Suc (ticks (snd s)))\<rparr>)) (activityHandlers (fst s))
       else [])"
proof -
  define new where "new =
      \<lparr>lastMessageTime =
         Max (insert (lastMessageTime a) (timestamp ` {m \<in> set M. lastMessageTime a < timestamp m})),
       unreadCount = unreadCount a + int (length (filter (\<lambda>m. lastMessageTime a < timestamp m) M)),
       lastChecked = Date_now E (Suc (ticks (snd s)))\<rparr>"
  define m' where "m' = (fst s)\<lparr>channelActivity := (channelActivity (fst s))(streamId ch \<mapsto> new)\<rparr>"
  define rq where "rq = FetchOlderHistory (streamId ch) 0 (Date_now E (ticks (snd s)))
                 (ACTIVITY_CHECK_MESSAGES (config (fst s))) (orNull (password ch))"
  define calls where "calls = concat (map (\<lambda>h. [(Issued (CallHandler h (streamId ch) new), m'),
                          (Settled (CallHandler h (streamId ch) new)
                             (\<not> handlerThrows E h (streamId ch) new), m')]) (activityHandlers (fst s)))"
  have cur: "currentActivityOf (fst s) (streamId ch) = a"
    using rec by (simp add: currentActivityOf_def)
  have ex: "(\<exists>m \<in> set M. lastMessageTime a < timestamp m) =
            (filter (\<lambda>m. lastMessageTime a < timestamp m) M \<noteq> [])"
    by (simp add: filter_empty_conv)
  have ok: "checkChannelActivity E ch s =
      (Inr (), (m', (snd s)\<lparr>trace := trace (snd s) @ [(Issued rq, fst s), (Settled rq True, fst s)] @
                  (if filter (\<lambda>m. lastMessageTime a < timestamp m) M \<noteq> [] then calls else []),
                ticks := Suc (Suc (ticks (snd s)))\<rparr>))"
    using check_ok [OF fetch] unfolding cur Let_def new_def m'_def rq_def calls_def .
  have tr: "trace (snd (snd (checkChannelActivity E ch s))) =
      trace (snd s) @ ([(Issued rq, fst s), (Settled rq True, fst s)] @
                  (if filter (\<lambda>m. lastMessageTime a < timestamp m) M \<noteq> [] then calls else []))"
    by (simp add: ok)
  have nc: "notified (issued calls) = map (\<lambda>h. (h, streamId ch, new)) (activityHandlers (fst s))"
    unfolding calls_def by (rule notified_calls)
  have "fst (checkChannelActivity E ch s) = Inr ()"
    by (simp add: ok)
  moreover have "channelActivity (fst (snd (checkChannelActivity E ch s))) (streamId ch) = Some new"
    by (simp add: ok m'_def)
  moreover have "notified (issued (added s (snd (checkChannelActivity E ch s)))) =
      (if \<exists>m \<in> set M. lastMessageTime a < timestamp m
       then map (\<lambda>h. (h, streamId ch, new)) (activityHandlers (fst s)) else [])"
    unfolding ex added_append [OF tr] by (simp add: issued_append notified_append nc rq_def)
  ultimately show ?thesis unfolding new_def by blast
qed


text \<open>
  A run for claim C2.
  The scenario of the specification: \<open>lastMessageTime = 100\<close> and the time stamps 90, 110
  and 120 give two more unread messages, \<open>lastMessageTime = 120\<close> and one notification
  with the updated record.
\<close>

theorem C2_scenario:
  "fst (checkChannelActivity (history_env [90, 110, 120]) (chan ''ch1'' []) ch1_state) = Inr () \<and>
   channelActivity (fst (snd (checkChannelActivity (history_env [90, 110, 120]) (chan ''ch1'' []) ch1_state))) ''ch1'' =
     Some \<lparr>lastMessageTime = 120, unreadCount = 5 + 2, lastChecked = 1001\<rparr> \<and>
   notified (issued (added ch1_state
       (snd (checkChannelActivity (history_env [90, 110, 120]) (chan ''ch1'' []) ch1_state)))) =
     [(7, ''ch1'', \<lparr>lastMessageTime = 120, unreadCount = 5 + 2, lastChecked = 1001\<rparr>)]"
proof -
  let ?M = "map (\<lambda>t. \<lparr>timestamp = t\<rparr>) [90, 110, 120]"
  let ?a = "\<lparr>lastMessageTime = 100, unreadCount = 5, lastChecked = 0\<rparr>"
  have rec: "channelActivity (fst ch1_state) (streamId (chan ''ch1'' [])) = Some ?a"
    by (simp add: ch1_state_def chan_def)
  have fetch: "fetchOlderHistory (history_env [90, 110, 120]) (streamId (chan ''ch1'' [])) 0
       (Date_now (history_env [90, 110, 120]) (ticks (snd ch1_state)))
       (ACTIVITY_CHECK_MESSAGES (config (fst ch1_state))) (orNull (password (chan ''ch1'' []))) = Inr ?M"
    by (simp add: history_env_def)
  have newer: "{m \<in> set ?M. lastMessageTime ?a < timestamp m} = {\<lparr>timestamp = 110\<rparr>, \<lparr>timestamp = 120\<rparr>}"
    by auto
  have facts: "streamId (chan ''ch1'' []) = ''ch1''" "activityHandlers (fst ch1_state) = [7]"
    "Date_now (history_env [90, 110, 120]) (Suc (ticks (snd ch1_state))) = 1001"
    by (simp_all add: chan_def ch1_state_def history_env_def quiet_env_def)
  show ?thesis
    using C2_check_counts_new_messages [OF rec fetch] unfolding newer facts by simp
qed

lemma check_manager:
  "\<exists>a. fst (snd (checkChannelActivity E ch s)) =
         (fst s)\<lparr>channelActivity := (channelActivity (fst s))(streamId ch \<mapsto> a)\<rparr> \<and>
       lastChecked a = Date_now E (Suc (ticks (snd s)))"
proof (cases "fetchOlderHistory E (streamId ch) 0 (Date_now E (ticks (snd s)))
             (ACTIVITY_CHECK_MESSAGES (config (fst s))) (orNull (password ch))")
  case (Inl e)
  show ?thesis
    by (rule exI [of _ "(currentActivityOf (fst s) (streamId ch))
          \<lparr>lastChecked := Date_now E (Suc (ticks (snd s)))\<rparr>"]) (simp add: check_fail [OF Inl])
next
  case (Inr M)
  define cur where "cur = currentActivityOf (fst s) (streamId ch)"
  define new where "new =
      \<lparr>lastMessageTime =
         Max (insert (lastMessageTime cur) (timestamp ` {m \<in> set M. lastMessageTime cur < timestamp m})),
       unreadCount = unreadCount cur + int (length (filter (\<lambda>m. lastMessageTime cur < timestamp m) M)),
       lastChecked = Date_now E (Suc (ticks (snd s)))\<rparr>"
  have "fst (snd (checkChannelActivity E ch s)) =
          (fst s)\<lparr>channelActivity := (channelActivity (fst s))(streamId ch \<mapsto> new)\<rparr>"
    unfolding new_def cur_def by (simp add: check_ok [OF Inr] Let_def)
  moreover have "lastChecked new = Date_now E (Suc (ticks (snd s)))"
    by (simp add: new_def)
  ultimately show ?thesis by blast
qed

lemma check_ticks: "ticks (snd (snd (checkChannelActivity E ch s))) = Suc (Suc (ticks (snd s)))"
proof (cases "fetchOlderHistory E (streamId ch) 0 (Date_now E (ticks (snd s)))
             (ACTIVITY_CHECK_MESSAGES (config (fst s))) (orNull (password ch))")
  case (Inl e)
  show ?thesis by (simp add: check_fail [OF Inl])
next
  case (Inr M)
  show ?thesis by (simp add: check_ok [OF Inr] Let_def)
qed

text \<open>
  Claim C10. When the fetch of a check is rejected, the check fails with that error; a
  record that existed keeps its \<open>lastMessageTime\<close> and \<open>unreadCount\<close> and only has
  \<open>lastChecked\<close> set to the clock reading taken after the failure; a channel without a
  record receives one with \<open>lastMessageTime = 0\<close> and \<open>unreadCount = 0\<close>; the records of
  the other channels stay as they are; and no handler is notified.
\<close>

theorem C10_failed_check_keeps_counts:
  assumes fetch: "fetchOlderHistory E (streamId ch) 0 (Date_now E (ticks (snd s)))
             (ACTIVITY_CHECK_MESSAGES (config (fst s))) (orNull (password ch)) = Inl e"
  shows "fst (checkChannelActivity E ch s) = Inl e \<and>
    (\<forall>a. channelActivity (fst s) (streamId ch) = Some a \<longrightarrow>
       channelActivity (fst (snd (checkChannelActivity E ch s))) (streamId ch) =
         Some (a\<lparr>lastChecked := Date_now E (Suc (ticks (snd s)))\<rparr>)) \<and>
    (channelActivity (fst s) (streamId ch) = None \<longrightarrow>
       channelActivity (fst (snd (checkChannelActivity E ch s))) (streamId ch) =
         Some \<lparr>lastMessageTime = 0, unreadCount = 0,
               lastChecked = Date_now E (Suc (ticks (snd s)))\<rparr>) \<and>
    (\<forall>x. x \<noteq> streamId ch \<longrightarrow>
       channelActivity (fst (snd (checkChannelActivity E ch s))) x = channelActivity (fst s) x) \<and>
    notified (issued (added s (snd (checkChannelActivity E ch s)))) = []"
proof -
  note fail = check_fail [OF fetch]
  have tr: "trace (snd (snd (checkChannelActivity E ch s))) = trace (snd s) @
           [(Issued (FetchOlderHistory (streamId ch) 0 (Date_now E (ticks (snd s)))
               (ACTIVITY_CHECK_MESSAGES (config (fst s))) (orNull (password ch))), fst s),
            (Settled (FetchOlderHistory (streamId ch) 0 (Date_now E (ticks (snd s)))
               (ACTIVITY_CHECK_MESSAGES (config (fst s))) (orNull (password ch))) False, fst s)]"
    by (simp add: fail)
  have "notified (issued (added s (snd (checkChannelActivity E ch s)))) = []"
    unfolding added_append [OF tr] by simp
  then show ?thesis
    by (simp add: fail currentActivityOf_def)
qed

text \<open>
  A run for claim C10.
  Two failed checks against an unreachable backend: of \<open>ch1\<close>, which has a record, and
  of \<open>ch2\<close>, which has none.
\<close>

theorem C10_scenario:
  "fst (checkChannelActivity failing_env (chan ''ch1'' []) ch1_state) = Inl (Rejected ''offline'') \<and>
   channelActivity (fst (snd (checkChannelActivity failing_env (chan ''ch1'' []) ch1_state))) ''ch1'' =
     Some \<lparr>lastMessageTime = 100, unreadCount = 5, lastChecked = 1001\<rparr> \<and>
   channelActivity (fst (snd (checkChannelActivity failing_env (chan ''ch2'' []) ch1_state))) ''ch2'' =
     Some \<lparr>lastMessageTime = 0, unreadCount = 0, lastChecked = 1001\<rparr> \<and>
   channelActivity (fst (snd (checkChannelActivity failing_env (chan ''ch2'' []) ch1_state))) ''ch1'' =
     Some \<lparr>lastMessageTime = 100, unreadCount = 5, lastChecked = 0\<rparr> \<and>
   notified (issued (added ch1_state
     (snd (checkChannelActivity failing_env (chan ''ch1'' []) ch1_state)))) = []"
proof -
  have fetch: "fetchOlderHistory failing_env (streamId (chan c [])) 0
       (Date_now failing_env (ticks (snd ch1_state)))
       (ACTIVITY_CHECK_MESSAGES (config (fst ch1_state))) (orNull (password (chan c []))) =
       Inl (Rejected ''offline'')" for c
    by (simp add: failing_env_def)
  have facts: "streamId (chan c []) = c"
    "channelActivity (fst ch1_state) ''ch1'' =
       Some \<lparr>lastMessageTime = 100, unreadCount = 5, lastChecked = 0\<rparr>"
    "channelActivity (fst ch1_state) ''ch2'' = None"
    "Date_now failing_env (Suc (ticks (snd ch1_state))) = 1001" for c
    by (simp_all add: chan_def ch1_state_def failing_env_def quiet_env_def)
  show ?thesis
    using C10_failed_check_keeps_counts [OF fetch [of "''ch1''"]]
      C10_failed_check_keeps_counts [OF fetch [of "''ch2''"]]
    unfolding facts by (simp add: facts)
qed

text \<open>
  Claim C9. A forced poll of the active channel returns at once: the state, the log
  included, is the one before, so no fetch is issued. And a forced poll of any channel,
  in any state (the guard of a running cycle set or not), leaves the poll cursor and the
  guard as they are.
\<close>

theorem C9_force_poll_frame:
  "(activeChannelId (fst s) = Some X \<longrightarrow> forcePollChannel E X s = (Inr (), s)) \<and>
   pollIndex (fst (snd (forcePollChannel E X s))) = pollIndex (fst s) \<and>
   isPolling (fst (snd (forcePollChannel E X s))) = isPolling (fst s)"
proof -
  have frame: "pollIndex (fst (snd (checkChannelActivity E ch s))) = pollIndex (fst s) \<and>
               isPolling (fst (snd (checkChannelActivity E ch s))) = isPolling (fst s)" for ch
    using check_manager [of E ch s] by auto
  show ?thesis
  proof (cases "getChannel E X")
    case None
    then show ?thesis by (simp add: forcePollChannel_def)
  next
    case (Some ch)
    show ?thesis
    proof (cases "Some X = activeChannelId (fst s)")
      case True
      with Some show ?thesis by (simp add: forcePollChannel_def)
    next
      case False
      obtain r s' where c: "checkChannelActivity E ch s = (r, s')"
        by (cases "checkChannelActivity E ch s")
      have "snd (forcePollChannel E X s) = s'"
        using Some False c by (cases r) (simp_all add: forcePollChannel_def)
      with frame [of ch] c False show ?thesis by auto
    qed
  qed
qed


text \<open>
  A run for claim C9.
  The active channel \<open>ch1\<close> is polled by force while a cycle is running (guard set,
  cursor at 2): nothing happens. Channel \<open>ch2\<close> is polled by force in the same state:
  cursor and guard stay.
\<close>

theorem C9_scenario:
  "forcePollChannel (registry_env [chan ''ch1'' [], chan ''ch2'' []] (history_env [90, 110, 120]))
       ''ch1'' busy_state = (Inr (), busy_state) \<and>
   pollIndex (fst (snd (forcePollChannel
       (registry_env [chan ''ch1'' [], chan ''ch2'' []] (history_env [90, 110, 120]))
       ''ch2'' busy_state))) = 2 \<and>
   isPolling (fst (snd (forcePollChannel
       (registry_env [chan ''ch1'' [], chan ''ch2'' []] (history_env [90, 110, 120]))
       ''ch2'' busy_state)))"
proof -
  have facts: "activeChannelId (fst busy_state) = Some ''ch1''" "pollIndex (fst busy_state) = 2"
    "isPolling (fst busy_state)"
    by (simp_all add: busy_state_def)
  show ?thesis
    using C9_force_poll_frame [of busy_state "''ch1''"
        "registry_env [chan ''ch1'' [], chan ''ch2'' []] (history_env [90, 110, 120])"]
      C9_force_poll_frame [of busy_state "''ch2''"
        "registry_env [chan ''ch1'' [], chan ''ch2'' []] (history_env [90, 110, 120])"]
    by (simp add: facts)
qed

section \<open>Switching the active channel\<close>

lemma store_trace: "trace (snd (storeActivityState E sid s)) = trace (snd s)"
  by (simp add: storeActivityState_def now_def setActivity_def Let_def split: option.splits)


lemma downgrade_Some:
  "sid \<noteq> [] \<Longrightarrow> downgradeToBackground E (Some sid) s =
     (Inr (), perform (Unsubscribe sid) (unsubscribe E sid = None) (storeActivityState E sid s))"
  by (simp add: downgradeToBackground_def downgradeBody_def Let_def split: option.splits)

lemma downgrade_result: "fst (downgradeToBackground E a s) = Inr ()"
  by (simp add: downgradeToBackground_def downgradeBody_def Let_def split: option.splits)

text \<open>What one call of \<open>setActiveChannel\<close> does when the channel is not the active one.\<close>

lemma setActive_new:
  assumes "X \<noteq> []" "activeChannelId (fst s) \<noteq> Some X"
  shows "setActiveChannel E (Some X) pw h s =
    (let s1 = (if falsy (activeChannelId (fst s)) then s
               else snd (downgradeToBackground E (activeChannelId (fst s)) s));
         s2 = ((fst s1)\<lparr>activeChannelId := Some X, activeSubscriptionHandlers := h\<rparr>, snd s1)
     in ((case subscribeToChannel E X pw of None \<Rightarrow> Inr () | Some e \<Rightarrow> Inl e),
         perform (SubscribeToChannel X pw) (subscribeToChannel E X pw = None) s2))"
proof (cases "falsy (activeChannelId (fst s))")
  case True
  then show ?thesis using assms
    by (simp add: setActiveChannel_def Let_def split: option.splits)
next
  case False
  then obtain Y where Y: "activeChannelId (fst s) = Some Y" "Y \<noteq> []"
    by (auto simp: falsy_def split: option.splits)
  show ?thesis using assms False
    by (simp add: setActiveChannel_def Let_def Y downgrade_Some split: option.splits)
qed


lemma setActive_trace:
  assumes X: "X \<noteq> []" and new: "activeChannelId (fst s) \<noteq> Some X"
  obtains pre ok where
    "trace (snd (snd (setActiveChannel E (Some X) pw h s))) = trace (snd s) @
       pre @ [(Issued (SubscribeToChannel X pw), fst (snd (setActiveChannel E (Some X) pw h s))),
              (Settled (SubscribeToChannel X pw) ok, fst (snd (setActiveChannel E (Some X) pw h s)))]"
    "(falsy (activeChannelId (fst s)) \<and> pre = []) \<or>
     (\<exists>Y m ok'. activeChannelId (fst s) = Some Y \<and> Y \<noteq> [] \<and>
        pre = [(Issued (Unsubscribe Y), m), (Settled (Unsubscribe Y) ok', m)])"
proof (cases "falsy (activeChannelId (fst s))")
  case True
  have tr: "trace (snd (snd (setActiveChannel E (Some X) pw h s))) = trace (snd s) @ [] @
       [(Issued (SubscribeToChannel X pw), fst (snd (setActiveChannel E (Some X) pw h s))),
        (Settled (SubscribeToChannel X pw) (subscribeToChannel E X pw = None),
           fst (snd (setActiveChannel E (Some X) pw h s)))]"
    using True by (simp add: setActive_new [OF X new] Let_def trace_perform fst_perform)
  show ?thesis
    by (rule that [of "[]", OF tr]) (use True in simp)
next
  case False
  then obtain Y where Y: "activeChannelId (fst s) = Some Y" "Y \<noteq> []"
    by (auto simp: falsy_def split: option.splits)
  let ?m = "fst (storeActivityState E Y s)"
  let ?pre = "[(Issued (Unsubscribe Y), ?m), (Settled (Unsubscribe Y) (unsubscribe E Y = None), ?m)]"
  have tr: "trace (snd (snd (setActiveChannel E (Some X) pw h s))) = trace (snd s) @ ?pre @
       [(Issued (SubscribeToChannel X pw), fst (snd (setActiveChannel E (Some X) pw h s))),
        (Settled (SubscribeToChannel X pw) (subscribeToChannel E X pw = None),
           fst (snd (setActiveChannel E (Some X) pw h s)))]"
    using False
    by (simp add: setActive_new [OF X new] Let_def Y downgrade_Some trace_perform fst_perform
        store_trace)
  show ?thesis
    by (rule that [of ?pre, OF tr]) (use Y in blast)
qed

lemma setActive_pointer:
  assumes "X \<noteq> []"
  shows "activeChannelId (fst (snd (setActiveChannel E (Some X) pw h s))) = Some X"
proof (cases "activeChannelId (fst s) = Some X")
  case True
  then show ?thesis using assms by (simp add: setActiveChannel_def)
next
  case False
  show ?thesis by (simp add: setActive_new [OF assms False] Let_def fst_perform)
qed

lemma setActive_same:
  "activeChannelId (fst s) = Some X \<Longrightarrow> setActiveChannel E (Some X) pw h s = (Inr (), s)"
  by (simp add: setActiveChannel_def)

text \<open>
  Claim C3. For a channel id \<open>X\<close> (a non-empty string): when \<open>X\<close> is the active channel,
  \<open>setActiveChannel\<close> returns normally and leaves the whole state as it is, the log
  included: no downgrade, no request to the transport, pointer and records unchanged.
  When \<open>X\<close> is not the active channel, a first call followed by a second one (whatever
  the transport answers, and whatever password and handlers the calls pass) leaves the
  state of the first call, and the two calls together issue exactly one subscribe
  request.
\<close>

theorem C3_set_active_twice:
  assumes X: "X \<noteq> []"
  shows "(activeChannelId (fst s) = Some X \<longrightarrow> setActiveChannel E (Some X) pw h s = (Inr (), s)) \<and>
    (activeChannelId (fst s) \<noteq> Some X \<longrightarrow>
       setActiveChannel E' (Some X) pw' h' (snd (setActiveChannel E (Some X) pw h s)) =
         (Inr (), snd (setActiveChannel E (Some X) pw h s)) \<and>
       filter isSubscribe (issued (added s
           (snd (setActiveChannel E' (Some X) pw' h' (snd (setActiveChannel E (Some X) pw h s)))))) =
         [SubscribeToChannel X pw])"
proof (intro conjI impI)
  assume "activeChannelId (fst s) = Some X"
  then show "setActiveChannel E (Some X) pw h s = (Inr (), s)" by (rule setActive_same)
next
  assume new: "activeChannelId (fst s) \<noteq> Some X"
  let ?s1 = "snd (setActiveChannel E (Some X) pw h s)"
  show second: "setActiveChannel E' (Some X) pw' h' ?s1 = (Inr (), ?s1)"
    by (rule setActive_same) (rule setActive_pointer [OF X])
  obtain pre ok where tr: "trace (snd ?s1) = trace (snd s) @
       pre @ [(Issued (SubscribeToChannel X pw), fst ?s1), (Settled (SubscribeToChannel X pw) ok, fst ?s1)]"
    and pre: "(falsy (activeChannelId (fst s)) \<and> pre = []) \<or>
     (\<exists>Y m ok'. activeChannelId (fst s) = Some Y \<and> Y \<noteq> [] \<and>
        pre = [(Issued (Unsubscribe Y), m), (Settled (Unsubscribe Y) ok', m)])"
    by (rule setActive_trace [OF X new])
  have "filter isSubscribe (issued pre) = []"
    using pre by auto
  then show "filter isSubscribe (issued (added s (snd (setActiveChannel E' (Some X) pw' h' ?s1)))) =
         [SubscribeToChannel X pw]"
    unfolding second snd_conv added_append [OF tr] by (simp add: issued_append)
qed


text \<open>
  A run for claim C3.
  Channel \<open>ch1\<close> is activated again while it is active, in a state with a running poll
  cycle; and it is activated twice from the initial state, the first subscription being
  rejected: one subscribe request in all.
\<close>

theorem C3_scenario:
  "setActiveChannel quiet_env (Some ''ch1'') None None busy_state = (Inr (), busy_state) \<and>
   filter isSubscribe (issued (added fresh
       (snd (setActiveChannel quiet_env (Some ''ch1'') None (Some 1)
          (snd (setActiveChannel failing_env (Some ''ch1'') None None fresh)))))) =
     [SubscribeToChannel ''ch1'' None]"
proof -
  have facts: "activeChannelId (fst busy_state) = Some ''ch1''" "activeChannelId (fst fresh) = None"
    by (simp_all add: busy_state_def fresh_def initial_manager_def)
  have new: "activeChannelId (fst fresh) \<noteq> Some ''ch1''"
    by (simp add: facts)
  have X: "''ch1'' \<noteq> []" by simp
  show ?thesis
    using C3_set_active_twice [OF X, of busy_state quiet_env None None]
      C3_set_active_twice [OF X, of fresh failing_env None None quiet_env None "Some 1"]
      facts(1) new
    by blast
qed

text \<open>
  Claim C4. For channel ids \<open>A\<close> and \<open>B\<close> that differ, from any state and whatever the
  transport answers: the events that \<open>setActiveChannel A\<close> followed by
  \<open>setActiveChannel B\<close> add to the log end with the unsubscribe request for \<open>A\<close>, its
  settlement, the subscribe request for \<open>B\<close> and its settlement, in this order, and no
  unsubscribe request for \<open>A\<close> stands before them.
\<close>

theorem C4_unsubscribe_before_subscribe:
  assumes A: "A \<noteq> []" and B: "B \<noteq> []" and AB: "A \<noteq> B"
  shows "\<exists>pre ok ok'.
     map fst (added s (snd (setActiveChannel E' (Some B) pwB hB
                         (snd (setActiveChannel E (Some A) pwA hA s))))) =
       pre @ [Issued (Unsubscribe A), Settled (Unsubscribe A) ok,
              Issued (SubscribeToChannel B pwB), Settled (SubscribeToChannel B pwB) ok'] \<and>
     Issued (Unsubscribe A) \<notin> set pre"
proof -
  let ?s1 = "snd (setActiveChannel E (Some A) pwA hA s)"
  let ?s2 = "snd (setActiveChannel E' (Some B) pwB hB ?s1)"
  have act1: "activeChannelId (fst ?s1) = Some A"
    by (rule setActive_pointer [OF A])
  have first: "\<exists>es. trace (snd ?s1) = trace (snd s) @ es \<and> Issued (Unsubscribe A) \<notin> set (map fst es)"
  proof (cases "activeChannelId (fst s) = Some A")
    case True
    then have "?s1 = s" by (simp add: setActive_same)
    then show ?thesis by simp
  next
    case False
    obtain pre ok where tr: "trace (snd ?s1) = trace (snd s) @
         pre @ [(Issued (SubscribeToChannel A pwA), fst ?s1), (Settled (SubscribeToChannel A pwA) ok, fst ?s1)]"
      and pre: "(falsy (activeChannelId (fst s)) \<and> pre = []) \<or>
       (\<exists>Y m ok'. activeChannelId (fst s) = Some Y \<and> Y \<noteq> [] \<and>
          pre = [(Issued (Unsubscribe Y), m), (Settled (Unsubscribe Y) ok', m)])"
      by (rule setActive_trace [OF A False])
    have "Issued (Unsubscribe A) \<notin> set (map fst pre)"
      using pre False by auto
    then show ?thesis using tr by auto
  qed
  then obtain es where es: "trace (snd ?s1) = trace (snd s) @ es"
    and noA: "Issued (Unsubscribe A) \<notin> set (map fst es)" by blast
  have new2: "activeChannelId (fst ?s1) \<noteq> Some B"
    using act1 AB by simp
  obtain pre2 ok2 where tr2: "trace (snd ?s2) = trace (snd ?s1) @
       pre2 @ [(Issued (SubscribeToChannel B pwB), fst ?s2), (Settled (SubscribeToChannel B pwB) ok2, fst ?s2)]"
    and pre2: "(falsy (activeChannelId (fst ?s1)) \<and> pre2 = []) \<or>
     (\<exists>Y m ok'. activeChannelId (fst ?s1) = Some Y \<and> Y \<noteq> [] \<and>
        pre2 = [(Issued (Unsubscribe Y), m), (Settled (Unsubscribe Y) ok', m)])"
    by (rule setActive_trace [OF B new2])
  from pre2 act1 A obtain m ok1 where
    p2: "pre2 = [(Issued (Unsubscribe A), m), (Settled (Unsubscribe A) ok1, m)]"
    by (auto simp: falsy_def)
  have all: "trace (snd ?s2) = trace (snd s) @ (es @ pre2 @
      [(Issued (SubscribeToChannel B pwB), fst ?s2), (Settled (SubscribeToChannel B pwB) ok2, fst ?s2)])"
    using tr2 es by simp
  have "map fst (added s ?s2) = map fst es @ [Issued (Unsubscribe A), Settled (Unsubscribe A) ok1,
              Issued (SubscribeToChannel B pwB), Settled (SubscribeToChannel B pwB) ok2]"
    unfolding added_append [OF all] by (simp add: p2)
  with noA show ?thesis by blast
qed


lemmas run_defs = setActiveChannel_def downgradeToBackground_def downgradeBody_def
  storeActivityState_def clearActiveChannel_def perform_def emit_def now_def setActivity_def
  added_def falsy_def Let_def

text \<open>
  A run for claim C4.
  From the initial state, \<open>ch1\<close> and then \<open>ch2\<close> are activated, the transport accepting
  every request: the whole log of the two calls.
\<close>

theorem C4_scenario:
  "(\<exists>pre ok ok'.
     map fst (added fresh (snd (setActiveChannel quiet_env (Some ''ch2'') None None
                         (snd (setActiveChannel quiet_env (Some ''ch1'') None None fresh))))) =
       pre @ [Issued (Unsubscribe ''ch1''), Settled (Unsubscribe ''ch1'') ok,
              Issued (SubscribeToChannel ''ch2'' None), Settled (SubscribeToChannel ''ch2'' None) ok'] \<and>
     Issued (Unsubscribe ''ch1'') \<notin> set pre) \<and>
   map fst (added fresh (snd (setActiveChannel quiet_env (Some ''ch2'') None None
                         (snd (setActiveChannel quiet_env (Some ''ch1'') None None fresh))))) =
     [Issued (SubscribeToChannel ''ch1'' None), Settled (SubscribeToChannel ''ch1'' None) True,
      Issued (Unsubscribe ''ch1''), Settled (Unsubscribe ''ch1'') True,
      Issued (SubscribeToChannel ''ch2'' None), Settled (SubscribeToChannel ''ch2'' None) True]"
proof -
  have run: "map fst (added fresh (snd (setActiveChannel quiet_env (Some ''ch2'') None None
                         (snd (setActiveChannel quiet_env (Some ''ch1'') None None fresh))))) =
     [Issued (SubscribeToChannel ''ch1'' None), Settled (SubscribeToChannel ''ch1'' None) True,
      Issued (Unsubscribe ''ch1''), Settled (Unsubscribe ''ch1'') True,
      Issued (SubscribeToChannel ''ch2'' None), Settled (SubscribeToChannel ''ch2'' None) True]"
    by (simp add: run_defs fresh_def quiet_env_def initial_manager_def)
  have "''ch1'' \<noteq> []" "''ch2'' \<noteq> []" "''ch1'' \<noteq> ''ch2''" by simp_all
  from C4_unsubscribe_before_subscribe [OF this, of fresh quiet_env None None quiet_env None None] run
  show ?thesis by (rule conjI)
qed





lemma clearActive_pointer:
  "\<not> falsy (activeChannelId (fst s)) \<Longrightarrow> activeChannelId (fst (snd (clearActiveChannel E s))) = None"
proof -
  assume active: "\<not> falsy (activeChannelId (fst s))"
  obtain r s' where "downgradeToBackground E (activeChannelId (fst s)) s = (r, s')"
    by (rule prod.exhaust)
  with active downgrade_result [of E "activeChannelId (fst s)" s] show ?thesis
    by (simp add: clearActiveChannel_def)
qed

section \<open>The round-robin selection\<close>

lemma smod_nonneg: "0 \<le> a \<Longrightarrow> 0 < b \<Longrightarrow> (a::int) smod b = a mod b"
  by (simp add: signed_modulo_int_def sgn_if)

lemma at_index_Some: "at_index xs i = Some x \<Longrightarrow> x \<in> set xs"
  by (auto simp: at_index_def split: if_splits)

lemma at_index_mod:
  "xs \<noteq> [] \<Longrightarrow> 0 \<le> a \<Longrightarrow>
     at_index xs (a smod int (length xs)) = Some (xs ! nat (a mod int (length xs)))"
  by (simp add: smod_nonneg at_index_def)

lemma selectBatch_elems:
  "Some c \<in> set (fst (selectBatch B p bg)) \<Longrightarrow> c \<in> set bg"
  by (auto simp: selectBatch_def Let_def dest: at_index_Some [OF sym])

lemma selectBatch_defined:
  assumes "bg \<noteq> []" "0 \<le> p"
  shows "None \<notin> set (fst (selectBatch B p bg))"
  using assms by (auto simp: selectBatch_def Let_def at_index_mod)






section \<open>The poll cycle\<close>

lemma fetches_append: "fetches (xs @ ys) = fetches xs @ fetches ys"
  by (simp add: fetches_def issued_append)

lemma notify_fetches: "fetches (trace (snd (notifyLoop E hs sid a s))) = fetches (trace (snd s))"
  by (induction hs arbitrary: s) (simp_all add: trace_perform fetches_append, simp_all add: fetches_def)

lemma check_prefix: "\<exists>es. trace (snd (snd (checkChannelActivity E ch s))) = trace (snd s) @ es"
proof (cases "fetchOlderHistory E (streamId ch) 0 (Date_now E (ticks (snd s)))
             (ACTIVITY_CHECK_MESSAGES (config (fst s))) (orNull (password ch))")
  case (Inl e)
  show ?thesis by (simp add: check_fail [OF Inl])
next
  case (Inr M)
  show ?thesis by (simp add: check_ok [OF Inr] Let_def)
qed

lemma check_fetches:
  "fetches (trace (snd (snd (checkChannelActivity E ch s)))) =
     fetches (trace (snd s)) @
       [FetchOlderHistory (streamId ch) 0 (Date_now E (ticks (snd s)))
          (ACTIVITY_CHECK_MESSAGES (config (fst s))) (orNull (password ch))]"
  by (simp add: checkChannelActivity_def notifyActivityHandlers_def notify_fetches Let_def
        now_def setActivity_def trace_perform fetches_append split: sum.splits prod.splits)
     (simp add: fetches_def)


text \<open>One iteration of the poll loop, in its two cases.\<close>

lemma pollOne_skip:
  assumes "Date_now E (ticks (snd s)) -
             (case channelActivity (fst s) (streamId ch) of None \<Rightarrow> 0 | Some a \<Rightarrow> lastChecked a)
           < MIN_POLL_INTERVAL (config (fst s))"
  shows "pollOne E ch isLast s = (fst s, (snd s)\<lparr>ticks := Suc (ticks (snd s))\<rparr>)"
  using assms by (simp add: pollOne_def now_def Let_def)

lemma pollOne_check:
  assumes "\<not> Date_now E (ticks (snd s)) -
             (case channelActivity (fst s) (streamId ch) of None \<Rightarrow> 0 | Some a \<Rightarrow> lastChecked a)
           < MIN_POLL_INTERVAL (config (fst s))"
  shows "pollOne E ch isLast s =
    (let s2 = snd (checkChannelActivity E ch (fst s, (snd s)\<lparr>ticks := Suc (ticks (snd s))\<rparr>))
     in if isLast then s2 else perform (StaggerDelay (POLL_STAGGER_DELAY (config (fst s2)))) True s2)"
  using assms by (simp add: pollOne_def now_def Let_def split: prod.splits)

lemma fetches_stagger:
  "fetches (trace (snd (perform (StaggerDelay d) ok x))) = fetches (trace (snd x))"
  by (simp add: trace_perform fetches_append) (simp add: fetches_def)

lemma pollOne_facts:
  obtains X where
    "fst (pollOne E ch isLast s) = (fst s)\<lparr>channelActivity := channelActivity (fst (pollOne E ch isLast s))\<rparr>"
    "\<exists>es. trace (snd (pollOne E ch isLast s)) = trace (snd s) @ es"
    "fetches (trace (snd (pollOne E ch isLast s))) = fetches (trace (snd s)) @ X"
    "\<forall>rq \<in> set X. \<exists>part t lim pw. rq = FetchOlderHistory (streamId ch) part t lim pw"
proof -
  let ?s1 = "(fst s, (snd s)\<lparr>ticks := Suc (ticks (snd s))\<rparr>)"
  let ?t = "Date_now E (ticks (snd s))"
  let ?last = "case channelActivity (fst s) (streamId ch) of None \<Rightarrow> 0 | Some a \<Rightarrow> lastChecked a"
  show ?thesis
  proof (cases "?t - ?last < MIN_POLL_INTERVAL (config (fst s))")
    case True
    show ?thesis
      by (rule that [of "[]"]) (simp_all add: pollOne_skip [OF True])
  next
    case False
    let ?s2 = "snd (checkChannelActivity E ch ?s1)"
    let ?s3 = "if isLast then ?s2
               else perform (StaggerDelay (POLL_STAGGER_DELAY (config (fst ?s2)))) True ?s2"
    have eq: "pollOne E ch isLast s = ?s3"
      by (simp add: pollOne_check [OF False] Let_def)
    obtain a where a: "fst ?s2 = (fst ?s1)\<lparr>channelActivity := (channelActivity (fst ?s1))(streamId ch \<mapsto> a)\<rparr>"
      using check_manager [of E ch ?s1] by blast
    have m: "fst (pollOne E ch isLast s) =
               (fst s)\<lparr>channelActivity := channelActivity (fst (pollOne E ch isLast s))\<rparr>"
      unfolding eq by (simp add: fst_perform a)
    obtain es where es: "trace (snd ?s2) = trace (snd ?s1) @ es"
      using check_prefix [of E ch ?s1] by blast
    have pre: "\<exists>es. trace (snd (pollOne E ch isLast s)) = trace (snd s) @ es"
      unfolding eq using es by (simp add: trace_perform)
    have f: "fetches (trace (snd (pollOne E ch isLast s))) = fetches (trace (snd s)) @
          [FetchOlderHistory (streamId ch) 0 (Date_now E (ticks (snd ?s1)))
             (ACTIVITY_CHECK_MESSAGES (config (fst ?s1))) (orNull (password ch))]"
      unfolding eq using check_fetches [of E ch ?s1] by (simp add: fetches_stagger)
    show ?thesis
      by (rule that [OF m pre f]) simp
  qed
qed

lemma pollLoop_step:
  obtains s' X where
    "pollLoop E (Some ch # cs) s = pollLoop E cs s'"
    "fst s' = (fst s)\<lparr>channelActivity := channelActivity (fst s')\<rparr>"
    "\<exists>es. trace (snd s') = trace (snd s) @ es"
    "fetches (trace (snd s')) = fetches (trace (snd s)) @ X"
    "\<forall>rq \<in> set X. \<exists>part t lim pw. rq = FetchOlderHistory (streamId ch) part t lim pw"
proof -
  obtain X where X:
    "fst (pollOne E ch (cs = []) s) =
       (fst s)\<lparr>channelActivity := channelActivity (fst (pollOne E ch (cs = []) s))\<rparr>"
    "\<exists>es. trace (snd (pollOne E ch (cs = []) s)) = trace (snd s) @ es"
    "fetches (trace (snd (pollOne E ch (cs = []) s))) = fetches (trace (snd s)) @ X"
    "\<forall>rq \<in> set X. \<exists>part t lim pw. rq = FetchOlderHistory (streamId ch) part t lim pw"
    by (rule pollOne_facts)
  have "pollLoop E (Some ch # cs) s = pollLoop E cs (pollOne E ch (cs = []) s)"
    by simp
  then show ?thesis using X by (rule that)
qed

lemma pollLoop_result: "None \<notin> set cs \<Longrightarrow> fst (pollLoop E cs s) = Inr ()"
proof (induction cs arbitrary: s)
  case Nil
  then show ?case by simp
next
  case (Cons c cs)
  then obtain ch where c: "c = Some ch" by (cases c) auto
  obtain s' where s': "pollLoop E (Some ch # cs) s = pollLoop E cs s'"
    by (rule pollLoop_step)
  have "None \<notin> set cs" using Cons.prems by simp
  then have "fst (pollLoop E cs s') = Inr ()" by (rule Cons.IH)
  then show ?case unfolding c s' .
qed

lemma pollLoop_trace:
  "\<exists>es X. trace (snd (snd (pollLoop E cs s))) = trace (snd s) @ es \<and>
     fetches es = X \<and>
     (\<forall>rq \<in> set X. \<exists>ch part t lim pw.
         Some ch \<in> set cs \<and> rq = FetchOlderHistory (streamId ch) part t lim pw)"
proof (induction cs arbitrary: s)
  case Nil
  then show ?case by (simp add: fetches_def)
next
  case (Cons c cs)
  show ?case
  proof (cases c)
    case None
    then show ?thesis by (simp add: fetches_def)
  next
    case (Some ch)
    obtain s' X where s': "pollLoop E (Some ch # cs) s = pollLoop E cs s'"
      "\<exists>es. trace (snd s') = trace (snd s) @ es"
      "fetches (trace (snd s')) = fetches (trace (snd s)) @ X"
      "\<forall>rq \<in> set X. \<exists>part t lim pw. rq = FetchOlderHistory (streamId ch) part t lim pw"
      by (rule pollLoop_step) blast
    from s'(2) obtain es1 where es1: "trace (snd s') = trace (snd s) @ es1" by blast
    with s'(3) have f1: "fetches es1 = X" by (simp add: fetches_append)
    from Cons.IH [of s'] obtain es2 where es2:
      "trace (snd (snd (pollLoop E cs s'))) = trace (snd s') @ es2"
      "\<forall>rq \<in> set (fetches es2). \<exists>ch part t lim pw.
         Some ch \<in> set cs \<and> rq = FetchOlderHistory (streamId ch) part t lim pw"
      by blast
    have "trace (snd (snd (pollLoop E (c # cs) s))) = trace (snd s) @ (es1 @ es2)"
      unfolding Some s'(1) by (simp add: es2(1) es1)
    moreover have "\<forall>rq \<in> set (fetches (es1 @ es2)). \<exists>ch' part t lim pw.
         Some ch' \<in> set (c # cs) \<and> rq = FetchOlderHistory (streamId ch') part t lim pw"
    proof
      fix rq assume "rq \<in> set (fetches (es1 @ es2))"
      then consider "rq \<in> set X" | "rq \<in> set (fetches es2)"
        by (auto simp: fetches_append f1)
      then show "\<exists>ch' part t lim pw.
         Some ch' \<in> set (c # cs) \<and> rq = FetchOlderHistory (streamId ch') part t lim pw"
      proof cases
        case 1
        with s'(4) obtain part t lim pw where "rq = FetchOlderHistory (streamId ch) part t lim pw"
          by blast
        moreover have "Some ch \<in> set (c # cs)" using Some by simp
        ultimately show ?thesis by blast
      next
        case 2
        with es2(2) obtain ch' part t lim pw where
          "Some ch' \<in> set cs" "rq = FetchOlderHistory (streamId ch') part t lim pw"
          by blast
        then show ?thesis by auto
      qed
    qed
    ultimately show ?thesis by blast
  qed
qed


lemma pollBody_eq:
  "pollBody E s =
     (if backgroundChannels (getAllChannels E) (activeChannelId (fst s)) = [] then (Inr (), s)
      else pollLoop E
             (fst (selectBatch (POLL_BATCH_SIZE (config (fst s))) (pollIndex (fst s))
                    (backgroundChannels (getAllChannels E) (activeChannelId (fst s)))))
             ((fst s)\<lparr>pollIndex :=
                 snd (selectBatch (POLL_BATCH_SIZE (config (fst s))) (pollIndex (fst s))
                        (backgroundChannels (getAllChannels E) (activeChannelId (fst s))))\<rparr>,
              snd s))"
  by (simp add: pollBody_def Let_def split: prod.splits)

lemma poll_eq:
  "pollBackgroundChannels E s =
     (if isPolling (fst s) then (Inr (), s)
      else (fst (pollBody E ((fst s)\<lparr>isPolling := True\<rparr>, snd s)),
            ((fst (snd (pollBody E ((fst s)\<lparr>isPolling := True\<rparr>, snd s))))\<lparr>isPolling := False\<rparr>,
             snd (snd (pollBody E ((fst s)\<lparr>isPolling := True\<rparr>, snd s))))))"
  by (simp add: pollBackgroundChannels_def split: prod.splits)

lemma poll_result:
  assumes "0 \<le> pollIndex (fst s)"
  shows "fst (pollBackgroundChannels E s) = Inr ()"
  using assms by (simp add: poll_eq pollBody_eq pollLoop_result selectBatch_defined)

lemma pollLoop_error:
  "fst (pollLoop E cs s) = Inr () \<or> fst (pollLoop E cs s) = Inl (TypeError ''channel is undefined'')"
proof (induction cs arbitrary: s)
  case Nil
  then show ?case by simp
next
  case (Cons c cs)
  show ?case
  proof (cases c)
    case None
    then show ?thesis by simp
  next
    case (Some ch)
    show ?thesis
      unfolding Some pollLoop.simps by (rule Cons.IH)
  qed
qed

lemma poll_no_rejection: "fst (pollBackgroundChannels E s) \<noteq> Inl (Rejected msg)"
proof (cases "isPolling (fst s) \<or> backgroundChannels (getAllChannels E) (activeChannelId (fst s)) = []")
  case True
  then show ?thesis by (auto simp: poll_eq pollBody_eq)
next
  case False
  have "fst (pollBackgroundChannels E s) =
     fst (pollLoop E
             (fst (selectBatch (POLL_BATCH_SIZE (config (fst s))) (pollIndex (fst s))
                    (backgroundChannels (getAllChannels E) (activeChannelId (fst s)))))
             ((fst s)\<lparr>isPolling := True, pollIndex :=
                 snd (selectBatch (POLL_BATCH_SIZE (config (fst s))) (pollIndex (fst s))
                        (backgroundChannels (getAllChannels E) (activeChannelId (fst s))))\<rparr>,
              snd s))"
    using False by (simp add: poll_eq pollBody_eq)
  then show ?thesis
    using pollLoop_error [of E "fst (selectBatch (POLL_BATCH_SIZE (config (fst s))) (pollIndex (fst s))
                    (backgroundChannels (getAllChannels E) (activeChannelId (fst s))))"
             "((fst s)\<lparr>isPolling := True, pollIndex :=
                 snd (selectBatch (POLL_BATCH_SIZE (config (fst s))) (pollIndex (fst s))
                        (backgroundChannels (getAllChannels E) (activeChannelId (fst s))))\<rparr>,
              snd s)"]
    by auto
qed

lemma poll_guard:
  "\<not> isPolling (fst s) \<Longrightarrow> \<not> isPolling (fst (snd (pollBackgroundChannels E s)))"
  by (simp add: poll_eq)

lemma poll_trace:
  "\<exists>es. trace (snd (snd (pollBackgroundChannels E s))) = trace (snd s) @ es \<and>
     (\<forall>rq \<in> set (fetches es). \<exists>ch part t lim pw.
         Some ch \<in> set (fst (selectBatch (POLL_BATCH_SIZE (config (fst s))) (pollIndex (fst s))
                    (backgroundChannels (getAllChannels E) (activeChannelId (fst s))))) \<and>
         rq = FetchOlderHistory (streamId ch) part t lim pw)"
proof (cases "isPolling (fst s) \<or> backgroundChannels (getAllChannels E) (activeChannelId (fst s)) = []")
  case True
  then show ?thesis by (auto simp: poll_eq pollBody_eq fetches_def)
next
  case False
  let ?batch = "fst (selectBatch (POLL_BATCH_SIZE (config (fst s))) (pollIndex (fst s))
                    (backgroundChannels (getAllChannels E) (activeChannelId (fst s))))"
  let ?s0 = "((fst s)\<lparr>isPolling := True, pollIndex :=
                 snd (selectBatch (POLL_BATCH_SIZE (config (fst s))) (pollIndex (fst s))
                        (backgroundChannels (getAllChannels E) (activeChannelId (fst s))))\<rparr>,
              snd s)"
  have tr: "trace (snd (snd (pollBackgroundChannels E s))) = trace (snd (snd (pollLoop E ?batch ?s0)))"
    using False by (simp add: poll_eq pollBody_eq)
  from pollLoop_trace [of E ?batch ?s0] show ?thesis
    unfolding tr by simp
qed

text \<open>
  Claim C1. In any state and for any registry, every channel of the batch that a poll
  cycle selects is one of the background channels, which are the channels of the
  registry whose stream id is not the active-channel pointer; and every fetch that the
  cycle issues is for a stream id other than the pointer.
\<close>

theorem C1_batch_excludes_active:
  "(\<forall>c. Some c \<in> set (fst (selectBatch (POLL_BATCH_SIZE (config (fst s))) (pollIndex (fst s))
                    (backgroundChannels (getAllChannels E) (activeChannelId (fst s))))) \<longrightarrow>
        c \<in> set (backgroundChannels (getAllChannels E) (activeChannelId (fst s))) \<and>
        Some (streamId c) \<noteq> activeChannelId (fst s)) \<and>
   set (backgroundChannels (getAllChannels E) (activeChannelId (fst s))) =
     {c \<in> set (getAllChannels E). Some (streamId c) \<noteq> activeChannelId (fst s)} \<and>
   (\<forall>sid part t lim pw.
      FetchOlderHistory sid part t lim pw \<in> set (issued (added s (snd (pollBackgroundChannels E s)))) \<longrightarrow>
      Some sid \<noteq> activeChannelId (fst s))"
proof (intro conjI allI impI)
  let ?bg = "backgroundChannels (getAllChannels E) (activeChannelId (fst s))"
  let ?batch = "fst (selectBatch (POLL_BATCH_SIZE (config (fst s))) (pollIndex (fst s)) ?bg)"
  show bg: "set ?bg = {c \<in> set (getAllChannels E). Some (streamId c) \<noteq> activeChannelId (fst s)}"
    by (simp add: backgroundChannels_def)
  have batch: "Some (streamId c) \<noteq> activeChannelId (fst s)" if "Some c \<in> set ?batch" for c
    using selectBatch_elems [OF that] bg by simp
  {
    fix c assume "Some c \<in> set ?batch"
    then show "c \<in> set ?bg" by (rule selectBatch_elems)
    then show "Some (streamId c) \<noteq> activeChannelId (fst s)" using bg by simp
  }
  fix sid part t lim pw
  assume rq: "FetchOlderHistory sid part t lim pw \<in>
      set (issued (added s (snd (pollBackgroundChannels E s))))"
  obtain es where es: "trace (snd (snd (pollBackgroundChannels E s))) = trace (snd s) @ es"
    and f: "\<forall>rq \<in> set (fetches es). \<exists>ch part t lim pw.
         Some ch \<in> set ?batch \<and> rq = FetchOlderHistory (streamId ch) part t lim pw"
    using poll_trace [of E s] by blast
  from rq have "FetchOlderHistory sid part t lim pw \<in> set (fetches es)"
    unfolding added_append [OF es] by (simp add: fetches_def)
  with f obtain ch where "Some ch \<in> set ?batch" "sid = streamId ch" by auto
  with batch show "Some sid \<noteq> activeChannelId (fst s)" by simp
qed


lemmas poll_defs = pollBackgroundChannels_def pollBody_def pollOne_def selectBatch_def at_index_def
  backgroundChannels_def signed_modulo_int_def upt_conv_Cons checkChannelActivity_def
  notifyActivityHandlers_def currentActivityOf_def orNull_def

lemma poll_run:
  "issued (added poll_state (snd (pollBackgroundChannels poll_env poll_state))) =
     [FetchOlderHistory ''e'' 0 50001 3 None, StaggerDelay 2000,
      FetchOlderHistory ''a'' 0 50004 3 None, StaggerDelay 2000,
      FetchOlderHistory ''b'' 0 50007 3 None]"
  by (simp add: poll_defs run_defs poll_env_def poll_state_def registry_env_def five_channels_def
      quiet_env_def fresh_def initial_manager_def default_config_def chan_def)


text \<open>
  A run for claim C1.
  With \<open>d\<close> active and the cursor at 3, the cycle selects \<open>e\<close>, \<open>a\<close> and \<open>b\<close> among the four
  background channels and fetches the history of these three.
\<close>

theorem C1_scenario:
  "fst (selectBatch (POLL_BATCH_SIZE (config (fst poll_state))) (pollIndex (fst poll_state))
          (backgroundChannels (getAllChannels poll_env) (activeChannelId (fst poll_state)))) =
     [Some (chan ''e'' []), Some (chan ''a'' []), Some (chan ''b'' [])] \<and>
   chan ''e'' [] \<in> set (backgroundChannels (getAllChannels poll_env) (activeChannelId (fst poll_state))) \<and>
   activeChannelId (fst poll_state) = Some ''d'' \<and>
   Some (streamId (chan ''e'' [])) \<noteq> activeChannelId (fst poll_state) \<and>
   issued (added poll_state (snd (pollBackgroundChannels poll_env poll_state))) =
     [FetchOlderHistory ''e'' 0 50001 3 None, StaggerDelay 2000,
      FetchOlderHistory ''a'' 0 50004 3 None, StaggerDelay 2000,
      FetchOlderHistory ''b'' 0 50007 3 None] \<and>
   Some ''a'' \<noteq> activeChannelId (fst poll_state)"
proof -
  let ?batch = "fst (selectBatch (POLL_BATCH_SIZE (config (fst poll_state))) (pollIndex (fst poll_state))
          (backgroundChannels (getAllChannels poll_env) (activeChannelId (fst poll_state))))"
  have sel: "?batch = [Some (chan ''e'' []), Some (chan ''a'' []), Some (chan ''b'' [])]"
    by (simp add: poll_defs poll_env_def poll_state_def registry_env_def five_channels_def
      quiet_env_def fresh_def initial_manager_def default_config_def chan_def)
  have act: "activeChannelId (fst poll_state) = Some ''d''"
    by (simp add: poll_state_def)
  note th = C1_batch_excludes_active [of poll_state poll_env]
  have e: "Some (chan ''e'' []) \<in> set ?batch"
    unfolding sel by simp
  from th e have c1: "chan ''e'' [] \<in> set (backgroundChannels (getAllChannels poll_env)
        (activeChannelId (fst poll_state))) \<and>
      Some (streamId (chan ''e'' [])) \<noteq> activeChannelId (fst poll_state)"
    by blast
  have "FetchOlderHistory ''a'' 0 50004 3 None \<in>
      set (issued (added poll_state (snd (pollBackgroundChannels poll_env poll_state))))"
    unfolding poll_run by simp
  with th have c3: "Some ''a'' \<noteq> activeChannelId (fst poll_state)"
    by blast
  from sel c1 act poll_run c3 show ?thesis by blast
qed

subsection \<open>Failing fetches\<close>

text \<open>
  Two runs of the poller that differ only in what the fetches answer stay in step: same
  clock readings, same configuration, same \<open>lastChecked\<close> of every channel.
\<close>

lemma check_in_step:
  assumes t: "ticks (snd sa) = ticks (snd sb)"
    and c: "config (fst sa) = config (fst sb)"
    and l: "\<forall>x. map_option lastChecked (channelActivity (fst sa) x) =
                map_option lastChecked (channelActivity (fst sb) x)"
  shows "ticks (snd (snd (checkChannelActivity (E\<lparr>fetchOlderHistory := f\<rparr>) ch sa))) =
         ticks (snd (snd (checkChannelActivity E ch sb))) \<and>
    config (fst (snd (checkChannelActivity (E\<lparr>fetchOlderHistory := f\<rparr>) ch sa))) =
         config (fst (snd (checkChannelActivity E ch sb))) \<and>
    (\<forall>x. map_option lastChecked
            (channelActivity (fst (snd (checkChannelActivity (E\<lparr>fetchOlderHistory := f\<rparr>) ch sa))) x) =
          map_option lastChecked (channelActivity (fst (snd (checkChannelActivity E ch sb))) x))"
proof -
  let ?E' = "E\<lparr>fetchOlderHistory := f\<rparr>"
  obtain a where a: "fst (snd (checkChannelActivity ?E' ch sa)) =
         (fst sa)\<lparr>channelActivity := (channelActivity (fst sa))(streamId ch \<mapsto> a)\<rparr>"
       "lastChecked a = Date_now ?E' (Suc (ticks (snd sa)))"
    using check_manager [of ?E' ch sa] by blast
  obtain b where b: "fst (snd (checkChannelActivity E ch sb)) =
         (fst sb)\<lparr>channelActivity := (channelActivity (fst sb))(streamId ch \<mapsto> b)\<rparr>"
       "lastChecked b = Date_now E (Suc (ticks (snd sb)))"
    using check_manager [of E ch sb] by blast
  show ?thesis
    using t c l by (simp add: a b check_ticks)
qed


lemma pollOne_in_step:
  assumes t: "ticks (snd sa) = ticks (snd sb)"
    and c: "config (fst sa) = config (fst sb)"
    and l: "\<forall>x. map_option lastChecked (channelActivity (fst sa) x) =
                map_option lastChecked (channelActivity (fst sb) x)"
  shows "ticks (snd (pollOne (E\<lparr>fetchOlderHistory := f\<rparr>) ch isLast sa)) =
         ticks (snd (pollOne E ch isLast sb)) \<and>
    config (fst (pollOne (E\<lparr>fetchOlderHistory := f\<rparr>) ch isLast sa)) =
         config (fst (pollOne E ch isLast sb)) \<and>
    (\<forall>x. map_option lastChecked
            (channelActivity (fst (pollOne (E\<lparr>fetchOlderHistory := f\<rparr>) ch isLast sa)) x) =
          map_option lastChecked (channelActivity (fst (pollOne E ch isLast sb)) x)) \<and>
    (\<exists>X. fetches (trace (snd (pollOne (E\<lparr>fetchOlderHistory := f\<rparr>) ch isLast sa))) =
            fetches (trace (snd sa)) @ X \<and>
          fetches (trace (snd (pollOne E ch isLast sb))) = fetches (trace (snd sb)) @ X)"
proof -
  let ?E' = "E\<lparr>fetchOlderHistory := f\<rparr>"
  let ?sa1 = "(fst sa, (snd sa)\<lparr>ticks := Suc (ticks (snd sa))\<rparr>)"
  let ?sb1 = "(fst sb, (snd sb)\<lparr>ticks := Suc (ticks (snd sb))\<rparr>)"
  let ?la = "case channelActivity (fst sa) (streamId ch) of None \<Rightarrow> 0 | Some a \<Rightarrow> lastChecked a"
  let ?lb = "case channelActivity (fst sb) (streamId ch) of None \<Rightarrow> 0 | Some a \<Rightarrow> lastChecked a"
  have last: "?la = ?lb"
    using l [rule_format, of "streamId ch"] by (auto split: option.splits)
  have clock: "Date_now ?E' k = Date_now E k" for k by simp
  show ?thesis
  proof (cases "Date_now E (ticks (snd sb)) - ?lb < MIN_POLL_INTERVAL (config (fst sb))")
    case True
    then have "Date_now ?E' (ticks (snd sa)) - ?la < MIN_POLL_INTERVAL (config (fst sa))"
      using t c last by simp
    from pollOne_skip [OF this] pollOne_skip [OF True] show ?thesis
      using t c l by simp
  next
    case False
    then have "\<not> Date_now ?E' (ticks (snd sa)) - ?la < MIN_POLL_INTERVAL (config (fst sa))"
      using t c last by simp
    note ea = pollOne_check [OF this, unfolded Let_def] and eb = pollOne_check [OF False, unfolded Let_def]
    have t1: "ticks (snd ?sa1) = ticks (snd ?sb1)" using t by simp
    have c1: "config (fst ?sa1) = config (fst ?sb1)" using c by simp
    have l1: "\<forall>x. map_option lastChecked (channelActivity (fst ?sa1) x) =
                map_option lastChecked (channelActivity (fst ?sb1) x)" using l by simp
    note step = check_in_step [OF t1 c1 l1, where E = E and f = f and ch = ch]
    have fa: "fetches (trace (snd (pollOne ?E' ch isLast sa))) = fetches (trace (snd sa)) @
          [FetchOlderHistory (streamId ch) 0 (Date_now E (ticks (snd ?sb1)))
             (ACTIVITY_CHECK_MESSAGES (config (fst ?sb1))) (orNull (password ch))]"
      unfolding ea using check_fetches [of ?E' ch ?sa1] t c by (simp add: fetches_stagger)
    have fb: "fetches (trace (snd (pollOne E ch isLast sb))) = fetches (trace (snd sb)) @
          [FetchOlderHistory (streamId ch) 0 (Date_now E (ticks (snd ?sb1)))
             (ACTIVITY_CHECK_MESSAGES (config (fst ?sb1))) (orNull (password ch))]"
      unfolding eb using check_fetches [of E ch ?sb1] by (simp add: fetches_stagger)
    have "ticks (snd (pollOne ?E' ch isLast sa)) = ticks (snd (pollOne E ch isLast sb))"
      unfolding ea eb using step by (simp add: ticks_perform)
    moreover have "config (fst (pollOne ?E' ch isLast sa)) = config (fst (pollOne E ch isLast sb))"
      unfolding ea eb using step by (simp add: fst_perform)
    moreover have "\<forall>x. map_option lastChecked (channelActivity (fst (pollOne ?E' ch isLast sa)) x) =
          map_option lastChecked (channelActivity (fst (pollOne E ch isLast sb)) x)"
      unfolding ea eb using step by (simp add: fst_perform)
    ultimately show ?thesis using fa fb by blast
  qed
qed

lemma pollLoop_in_step:
  assumes "ticks (snd sa) = ticks (snd sb)"
    and "config (fst sa) = config (fst sb)"
    and "\<forall>x. map_option lastChecked (channelActivity (fst sa) x) =
                map_option lastChecked (channelActivity (fst sb) x)"
  shows "\<exists>X. fetches (trace (snd (snd (pollLoop (E\<lparr>fetchOlderHistory := f\<rparr>) cs sa)))) =
            fetches (trace (snd sa)) @ X \<and>
          fetches (trace (snd (snd (pollLoop E cs sb)))) = fetches (trace (snd sb)) @ X"
  using assms
proof (induction cs arbitrary: sa sb)
  case Nil
  then show ?case by simp
next
  case (Cons c cs)
  show ?case
  proof (cases c)
    case None
    then show ?thesis by simp
  next
    case (Some ch)
    let ?E' = "E\<lparr>fetchOlderHistory := f\<rparr>"
    let ?a = "pollOne ?E' ch (cs = []) sa"
    let ?b = "pollOne E ch (cs = []) sb"
    from pollOne_in_step [OF Cons.prems, where E = E and f = f and ch = ch and isLast = "cs = []"]
    obtain X where
      R: "ticks (snd ?a) = ticks (snd ?b)" "config (fst ?a) = config (fst ?b)"
         "\<forall>x. map_option lastChecked (channelActivity (fst ?a) x) =
               map_option lastChecked (channelActivity (fst ?b) x)"
      and X: "fetches (trace (snd ?a)) = fetches (trace (snd sa)) @ X"
             "fetches (trace (snd ?b)) = fetches (trace (snd sb)) @ X"
      by blast
    from Cons.IH [OF R] obtain Y where
      Y: "fetches (trace (snd (snd (pollLoop ?E' cs ?a)))) = fetches (trace (snd ?a)) @ Y"
         "fetches (trace (snd (snd (pollLoop E cs ?b)))) = fetches (trace (snd ?b)) @ Y"
      by blast
    have "fetches (trace (snd (snd (pollLoop ?E' (c # cs) sa)))) = fetches (trace (snd sa)) @ (X @ Y)"
      unfolding Some by (simp add: X Y)
    moreover have "fetches (trace (snd (snd (pollLoop E (c # cs) sb)))) = fetches (trace (snd sb)) @ (X @ Y)"
      unfolding Some by (simp add: X Y)
    ultimately show ?thesis by blast
  qed
qed


lemma poll_independent:
  "fetches (added s (snd (pollBackgroundChannels (E\<lparr>fetchOlderHistory := f\<rparr>) s))) =
   fetches (added s (snd (pollBackgroundChannels E s)))"
proof (cases "isPolling (fst s) \<or> backgroundChannels (getAllChannels E) (activeChannelId (fst s)) = []")
  case True
  then show ?thesis by (auto simp: poll_eq pollBody_eq)
next
  case False
  let ?E' = "E\<lparr>fetchOlderHistory := f\<rparr>"
  let ?batch = "fst (selectBatch (POLL_BATCH_SIZE (config (fst s))) (pollIndex (fst s))
                    (backgroundChannels (getAllChannels E) (activeChannelId (fst s))))"
  let ?s0 = "((fst s)\<lparr>isPolling := True, pollIndex :=
                 snd (selectBatch (POLL_BATCH_SIZE (config (fst s))) (pollIndex (fst s))
                        (backgroundChannels (getAllChannels E) (activeChannelId (fst s))))\<rparr>,
              snd s)"
  have ta: "trace (snd (snd (pollBackgroundChannels ?E' s))) = trace (snd (snd (pollLoop ?E' ?batch ?s0)))"
    using False by (simp add: poll_eq pollBody_eq)
  have tb: "trace (snd (snd (pollBackgroundChannels E s))) = trace (snd (snd (pollLoop E ?batch ?s0)))"
    using False by (simp add: poll_eq pollBody_eq)
  obtain X where X: "fetches (trace (snd (snd (pollLoop ?E' ?batch ?s0)))) = fetches (trace (snd ?s0)) @ X"
      "fetches (trace (snd (snd (pollLoop E ?batch ?s0)))) = fetches (trace (snd ?s0)) @ X"
    using pollLoop_in_step [where sa = ?s0 and sb = ?s0 and E = E and f = f and cs = ?batch] by blast
  obtain ea where ea: "trace (snd (snd (pollBackgroundChannels ?E' s))) = trace (snd s) @ ea"
    using poll_trace [of ?E' s] by blast
  obtain eb where eb: "trace (snd (snd (pollBackgroundChannels E s))) = trace (snd s) @ eb"
    using poll_trace [of E s] by blast
  have "fetches ea = X"
    using X(1) ea ta by (simp add: fetches_append)
  moreover have "fetches eb = X"
    using X(2) eb tb by (simp add: fetches_append)
  ultimately show ?thesis
    unfolding added_append [OF ea] added_append [OF eb] by simp
qed

section \<open>Errors that reach the caller\<close>


subsection \<open>The guard in the log\<close>

lemma check_snaps:
  "\<exists>es. trace (snd (snd (checkChannelActivity E ch s))) = trace (snd s) @ es \<and>
        (\<forall>x \<in> set es. isPolling (snd x) = isPolling (fst s))"
proof (cases "fetchOlderHistory E (streamId ch) 0 (Date_now E (ticks (snd s)))
             (ACTIVITY_CHECK_MESSAGES (config (fst s))) (orNull (password ch))")
  case (Inl e)
  show ?thesis by (simp add: check_fail [OF Inl])
next
  case (Inr M)
  show ?thesis by (auto simp: check_ok [OF Inr] Let_def)
qed

lemma pollOne_snaps:
  "\<exists>es. trace (snd (pollOne E ch isLast s)) = trace (snd s) @ es \<and>
        (\<forall>x \<in> set es. isPolling (snd x) = isPolling (fst s))"
proof (cases "Date_now E (ticks (snd s)) -
             (case channelActivity (fst s) (streamId ch) of None \<Rightarrow> 0 | Some a \<Rightarrow> lastChecked a)
           < MIN_POLL_INTERVAL (config (fst s))")
  case True
  show ?thesis by (simp add: pollOne_skip [OF True])
next
  case False
  let ?s1 = "(fst s, (snd s)\<lparr>ticks := Suc (ticks (snd s))\<rparr>)"
  let ?s2 = "snd (checkChannelActivity E ch ?s1)"
  obtain es where es: "trace (snd ?s2) = trace (snd ?s1) @ es"
    "\<forall>x \<in> set es. isPolling (snd x) = isPolling (fst ?s1)"
    using check_snaps [of E ch ?s1] by blast
  obtain a where a: "fst ?s2 = (fst ?s1)\<lparr>channelActivity := (channelActivity (fst ?s1))(streamId ch \<mapsto> a)\<rparr>"
    using check_manager [of E ch ?s1] by blast
  show ?thesis
  proof (cases isLast)
    case True
    then show ?thesis using es by (simp add: pollOne_check [OF False] Let_def)
  next
    case last: False
    have "trace (snd (pollOne E ch isLast s)) = trace (snd s) @ (es @
        [(Issued (StaggerDelay (POLL_STAGGER_DELAY (config (fst ?s2)))), fst ?s2),
         (Settled (StaggerDelay (POLL_STAGGER_DELAY (config (fst ?s2)))) True, fst ?s2)])"
      using last es(1) by (simp add: pollOne_check [OF False] Let_def trace_perform)
    moreover have "\<forall>x \<in> set (es @
        [(Issued (StaggerDelay (POLL_STAGGER_DELAY (config (fst ?s2)))), fst ?s2),
         (Settled (StaggerDelay (POLL_STAGGER_DELAY (config (fst ?s2)))) True, fst ?s2)]).
        isPolling (snd x) = isPolling (fst s)"
      using es(2) by (auto simp: a)
    ultimately show ?thesis by blast
  qed
qed

lemma pollOne_guard: "isPolling (fst (pollOne E ch isLast s)) = isPolling (fst s)"
proof -
  obtain X where "fst (pollOne E ch isLast s) =
      (fst s)\<lparr>channelActivity := channelActivity (fst (pollOne E ch isLast s))\<rparr>"
    by (rule pollOne_facts)
  then show ?thesis by (metis manager.select_convs(7) manager.surjective manager.update_convs(3))
qed

lemma pollLoop_snaps:
  "\<exists>es. trace (snd (snd (pollLoop E cs s))) = trace (snd s) @ es \<and>
        (\<forall>x \<in> set es. isPolling (snd x) = isPolling (fst s))"
proof (induction cs arbitrary: s)
  case Nil
  then show ?case by simp
next
  case (Cons c cs)
  show ?case
  proof (cases c)
    case None
    then show ?thesis by simp
  next
    case (Some ch)
    let ?s' = "pollOne E ch (cs = []) s"
    obtain es1 where es1: "trace (snd ?s') = trace (snd s) @ es1"
      "\<forall>x \<in> set es1. isPolling (snd x) = isPolling (fst s)"
      using pollOne_snaps [of E ch "cs = []" s] by blast
    obtain es2 where es2: "trace (snd (snd (pollLoop E cs ?s'))) = trace (snd ?s') @ es2"
      "\<forall>x \<in> set es2. isPolling (snd x) = isPolling (fst ?s')"
      using Cons.IH [of ?s'] by blast
    have "trace (snd (snd (pollLoop E (c # cs) s))) = trace (snd s) @ (es1 @ es2)"
      unfolding Some pollLoop.simps by (simp add: es1(1) es2(1))
    moreover have "\<forall>x \<in> set (es1 @ es2). isPolling (snd x) = isPolling (fst s)"
      using es1(2) es2(2) by (auto simp: pollOne_guard)
    ultimately show ?thesis by blast
  qed
qed


lemma poll_guard_held:
  assumes "\<not> isPolling (fst s)"
  shows "\<forall>x \<in> set (added s (snd (pollBackgroundChannels E s))). isPolling (snd x)"
proof (cases "backgroundChannels (getAllChannels E) (activeChannelId (fst s)) = []")
  case True
  then show ?thesis using assms by (simp add: poll_eq pollBody_eq added_def)
next
  case False
  let ?batch = "fst (selectBatch (POLL_BATCH_SIZE (config (fst s))) (pollIndex (fst s))
                    (backgroundChannels (getAllChannels E) (activeChannelId (fst s))))"
  let ?s0 = "((fst s)\<lparr>isPolling := True, pollIndex :=
                 snd (selectBatch (POLL_BATCH_SIZE (config (fst s))) (pollIndex (fst s))
                        (backgroundChannels (getAllChannels E) (activeChannelId (fst s))))\<rparr>,
              snd s)"
  have tr: "trace (snd (snd (pollBackgroundChannels E s))) = trace (snd (snd (pollLoop E ?batch ?s0)))"
    using False assms by (simp add: poll_eq pollBody_eq)
  obtain es where es: "trace (snd (snd (pollLoop E ?batch ?s0))) = trace (snd ?s0) @ es"
    "\<forall>x \<in> set es. isPolling (snd x) = isPolling (fst ?s0)"
    using pollLoop_snaps [of E ?batch ?s0] by blast
  have "trace (snd (snd (pollBackgroundChannels E s))) = trace (snd s) @ es"
    using tr es(1) by simp
  from added_append [OF this] es(2) show ?thesis by simp
qed

subsection \<open>The fetches of a cycle\<close>

lemma lastCheckedOf_update:
  "lastCheckedOf (m\<lparr>channelActivity := (channelActivity m)(sid \<mapsto> a)\<rparr>) =
     (lastCheckedOf m)(sid \<mapsto> lastChecked a)"
  by (rule ext) (simp add: lastCheckedOf_def)

lemma lastCheckedOf_case:
  "(case channelActivity m sid of None \<Rightarrow> 0 | Some a \<Rightarrow> lastChecked a) =
   (case lastCheckedOf m sid of None \<Rightarrow> 0 | Some t \<Rightarrow> t)"
  by (simp add: lastCheckedOf_def split: option.splits)

lemma pollOne_checked:
  assumes "\<not> Date_now E (ticks (snd s)) -
             (case channelActivity (fst s) (streamId ch) of None \<Rightarrow> 0 | Some a \<Rightarrow> lastChecked a)
           < MIN_POLL_INTERVAL (config (fst s))"
  shows "fetches (trace (snd (pollOne E ch isLast s))) = fetches (trace (snd s)) @
          [FetchOlderHistory (streamId ch) 0 (Date_now E (Suc (ticks (snd s))))
             (ACTIVITY_CHECK_MESSAGES (config (fst s))) (orNull (password ch))]"
    and "lastCheckedOf (fst (pollOne E ch isLast s)) =
          (lastCheckedOf (fst s))(streamId ch \<mapsto> Date_now E (ticks (snd s) + 2))"
    and "ticks (snd (pollOne E ch isLast s)) = ticks (snd s) + 3"
    and "config (fst (pollOne E ch isLast s)) = config (fst s)"
proof -
  let ?s1 = "(fst s, (snd s)\<lparr>ticks := Suc (ticks (snd s))\<rparr>)"
  let ?s2 = "snd (checkChannelActivity E ch ?s1)"
  note eq = pollOne_check [OF assms, unfolded Let_def]
  obtain a where a: "fst ?s2 = (fst ?s1)\<lparr>channelActivity := (channelActivity (fst ?s1))(streamId ch \<mapsto> a)\<rparr>"
      "lastChecked a = Date_now E (Suc (ticks (snd ?s1)))"
    using check_manager [of E ch ?s1] by blast
  show "fetches (trace (snd (pollOne E ch isLast s))) = fetches (trace (snd s)) @
          [FetchOlderHistory (streamId ch) 0 (Date_now E (Suc (ticks (snd s))))
             (ACTIVITY_CHECK_MESSAGES (config (fst s))) (orNull (password ch))]"
    unfolding eq using check_fetches [of E ch ?s1] by (simp add: fetches_stagger)
  have "lastCheckedOf (fst ?s2) = (lastCheckedOf (fst s))(streamId ch \<mapsto> Date_now E (ticks (snd s) + 2))"
    unfolding a(1) using a(2) by (simp add: lastCheckedOf_update)
  then show "lastCheckedOf (fst (pollOne E ch isLast s)) =
          (lastCheckedOf (fst s))(streamId ch \<mapsto> Date_now E (ticks (snd s) + 2))"
    unfolding eq by (simp add: fst_perform)
  show "ticks (snd (pollOne E ch isLast s)) = ticks (snd s) + 3"
    unfolding eq by (simp add: ticks_perform check_ticks)
  show "config (fst (pollOne E ch isLast s)) = config (fst s)"
    unfolding eq by (simp add: fst_perform a(1))
qed

lemma pollLoop_expected:
  "fetches (trace (snd (snd (pollLoop E cs s)))) =
     fetches (trace (snd s)) @
       fst (expectedChecks E (config (fst s)) (lastCheckedOf (fst s)) (ticks (snd s)) (reached cs)) \<and>
   lastCheckedOf (fst (snd (pollLoop E cs s))) =
     fst (snd (expectedChecks E (config (fst s)) (lastCheckedOf (fst s)) (ticks (snd s)) (reached cs))) \<and>
   ticks (snd (snd (pollLoop E cs s))) =
     snd (snd (expectedChecks E (config (fst s)) (lastCheckedOf (fst s)) (ticks (snd s)) (reached cs)))"
proof (induction cs arbitrary: s)
  case Nil
  then show ?case by simp
next
  case (Cons c cs)
  show ?case
  proof (cases c)
    case None
    then show ?thesis by simp
  next
    case (Some ch)
    let ?s' = "pollOne E ch (cs = []) s"
    note IH = Cons.IH [of ?s']
    show ?thesis
    proof (cases "Date_now E (ticks (snd s)) -
             (case channelActivity (fst s) (streamId ch) of None \<Rightarrow> 0 | Some a \<Rightarrow> lastChecked a)
           < MIN_POLL_INTERVAL (config (fst s))")
      case True
      have s': "?s' = (fst s, (snd s)\<lparr>ticks := Suc (ticks (snd s))\<rparr>)"
        by (rule pollOne_skip [OF True])
      have ex: "expectedChecks E (config (fst s)) (lastCheckedOf (fst s)) (ticks (snd s)) (reached (c # cs)) =
            expectedChecks E (config (fst s)) (lastCheckedOf (fst s)) (Suc (ticks (snd s))) (reached cs)"
        using True by (simp add: Some lastCheckedOf_case)
      show ?thesis
        unfolding ex unfolding Some pollLoop.simps using IH by (simp add: s')
    next
      case False
      note one = pollOne_checked [OF False, of "cs = []"]
      obtain rqs lc' k' where rec: "expectedChecks E (config (fst s))
            ((lastCheckedOf (fst s))(streamId ch \<mapsto> Date_now E (ticks (snd s) + 2)))
            (ticks (snd s) + 3) (reached cs) = (rqs, lc', k')"
        by (rule prod_cases3)
      have ex: "expectedChecks E (config (fst s)) (lastCheckedOf (fst s)) (ticks (snd s)) (reached (c # cs)) =
            (FetchOlderHistory (streamId ch) 0 (Date_now E (Suc (ticks (snd s))))
               (ACTIVITY_CHECK_MESSAGES (config (fst s))) (orNull (password ch)) # rqs, lc', k')"
        using False rec by (simp add: Some lastCheckedOf_case)
      note IH' = IH [unfolded one(2,3,4) rec fst_conv snd_conv]
      show ?thesis
        unfolding ex unfolding Some pollLoop.simps fst_conv snd_conv
        using IH' by (simp add: one(1))
    qed
  qed
qed


lemma lastCheckedOf_frame [simp]:
  "lastCheckedOf (m\<lparr>isPolling := b\<rparr>) = lastCheckedOf m"
  "lastCheckedOf (m\<lparr>pollIndex := p\<rparr>) = lastCheckedOf m"
  by (rule ext, simp add: lastCheckedOf_def)+

lemma poll_expected:
  assumes guard: "\<not> isPolling (fst s)"
  shows "fetches (added s (snd (pollBackgroundChannels E s))) =
      fst (expectedChecks E (config (fst s)) (lastCheckedOf (fst s)) (ticks (snd s))
           (reached (fst (selectBatch (POLL_BATCH_SIZE (config (fst s))) (pollIndex (fst s))
              (backgroundChannels (getAllChannels E) (activeChannelId (fst s))))))) \<and>
    lastCheckedOf (fst (snd (pollBackgroundChannels E s))) =
      fst (snd (expectedChecks E (config (fst s)) (lastCheckedOf (fst s)) (ticks (snd s))
           (reached (fst (selectBatch (POLL_BATCH_SIZE (config (fst s))) (pollIndex (fst s))
              (backgroundChannels (getAllChannels E) (activeChannelId (fst s)))))))) \<and>
    ticks (snd (snd (pollBackgroundChannels E s))) =
      snd (snd (expectedChecks E (config (fst s)) (lastCheckedOf (fst s)) (ticks (snd s))
           (reached (fst (selectBatch (POLL_BATCH_SIZE (config (fst s))) (pollIndex (fst s))
              (backgroundChannels (getAllChannels E) (activeChannelId (fst s))))))))"
proof (cases "backgroundChannels (getAllChannels E) (activeChannelId (fst s)) = []")
  case True
  have "fst (selectBatch (POLL_BATCH_SIZE (config (fst s))) (pollIndex (fst s)) []) = []"
    by (simp add: selectBatch_def Let_def)
  then show ?thesis
    using True guard by (simp add: poll_eq pollBody_eq added_def fetches_def)
next
  case False
  let ?batch = "fst (selectBatch (POLL_BATCH_SIZE (config (fst s))) (pollIndex (fst s))
                    (backgroundChannels (getAllChannels E) (activeChannelId (fst s))))"
  let ?s0 = "((fst s)\<lparr>isPolling := True, pollIndex :=
                 snd (selectBatch (POLL_BATCH_SIZE (config (fst s))) (pollIndex (fst s))
                        (backgroundChannels (getAllChannels E) (activeChannelId (fst s))))\<rparr>,
              snd s)"
  have eq: "snd (pollBackgroundChannels E s) =
      ((fst (snd (pollLoop E ?batch ?s0)))\<lparr>isPolling := False\<rparr>, snd (snd (pollLoop E ?batch ?s0)))"
    using False guard by (simp add: poll_eq pollBody_eq)
  note ex = pollLoop_expected [of E ?batch ?s0]
  obtain es where es: "trace (snd (snd (pollLoop E ?batch ?s0))) = trace (snd s) @ es"
    using pollLoop_snaps [of E ?batch ?s0] by auto
  have tr: "trace (snd (snd (pollBackgroundChannels E s))) = trace (snd s) @ es"
    unfolding eq using es by simp
  have f: "fetches es = fst (expectedChecks E (config (fst s)) (lastCheckedOf (fst s)) (ticks (snd s))
           (reached ?batch))"
    using ex es by (simp add: fetches_append)
  show ?thesis
    unfolding added_append [OF tr] f unfolding eq using ex by simp
qed

lemma expected_range:
  "expectedChecks E cfg lc k chs = (rqs, lc', k') \<Longrightarrow>
     k \<le> k' \<and>
     (\<forall>x. lc' x = lc x \<or> (\<exists>j. k < j \<and> j < k' \<and> lc' x = Some (Date_now E j))) \<and>
     (\<forall>sid part t lim pw. FetchOlderHistory sid part t lim pw \<in> set rqs \<longrightarrow>
        (\<exists>j. k < j \<and> j < k' \<and> lc' sid = Some (Date_now E j)))"
proof (induction chs arbitrary: lc k rqs lc' k')
  case Nil
  then show ?case by simp
next
  case (Cons ch chs)
  show ?case
  proof (cases "Date_now E k - (case lc (streamId ch) of None \<Rightarrow> 0 | Some t \<Rightarrow> t) < MIN_POLL_INTERVAL cfg")
    case True
    with Cons.prems have "expectedChecks E cfg lc (Suc k) chs = (rqs, lc', k')" by simp
    from Cons.IH [OF this] show ?thesis
      by (meson Suc_leD Suc_le_lessD less_imp_le_nat less_trans_Suc order_less_le_trans lessI)
  next
    case False
    let ?lc1 = "lc(streamId ch \<mapsto> Date_now E (k + 2))"
    obtain rqs1 where rec: "expectedChecks E cfg ?lc1 (k + 3) chs = (rqs1, lc', k')"
      and rqs: "rqs = FetchOlderHistory (streamId ch) 0 (Date_now E (Suc k))
                   (ACTIVITY_CHECK_MESSAGES cfg) (orNull (password ch)) # rqs1"
      using Cons.prems False by (auto split: prod.splits)
    note IH = Cons.IH [OF rec]
    have k': "k + 3 \<le> k'" using IH by blast
    have lc: "lc' x = lc x \<or> (\<exists>j. k < j \<and> j < k' \<and> lc' x = Some (Date_now E j))" for x
    proof -
      from IH have "lc' x = ?lc1 x \<or> (\<exists>j. k + 3 < j \<and> j < k' \<and> lc' x = Some (Date_now E j))"
        by blast
      then show ?thesis
      proof
        assume a: "lc' x = ?lc1 x"
        show ?thesis
        proof (cases "x = streamId ch")
          case True
          with a have "lc' x = Some (Date_now E (k + 2))" by simp
          moreover have "k < k + 2" "k + 2 < k'" using k' by simp_all
          ultimately show ?thesis by blast
        next
          case False
          with a show ?thesis by simp
        qed
      next
        assume "\<exists>j. k + 3 < j \<and> j < k' \<and> lc' x = Some (Date_now E j)"
        then obtain j where "k + 3 < j" "j < k'" "lc' x = Some (Date_now E j)" by blast
        then have "k < j \<and> j < k' \<and> lc' x = Some (Date_now E j)" by simp
        then show ?thesis by blast
      qed
    qed
    have head: "\<exists>j. k < j \<and> j < k' \<and> lc' (streamId ch) = Some (Date_now E j)"
    proof -
      from IH have "lc' (streamId ch) = ?lc1 (streamId ch) \<or>
          (\<exists>j. k + 3 < j \<and> j < k' \<and> lc' (streamId ch) = Some (Date_now E j))"
        by blast
      then show ?thesis
      proof
        assume "lc' (streamId ch) = ?lc1 (streamId ch)"
        then have "lc' (streamId ch) = Some (Date_now E (k + 2))" by simp
        moreover have "k < k + 2" "k + 2 < k'" using k' by simp_all
        ultimately show ?thesis by blast
      next
        assume "\<exists>j. k + 3 < j \<and> j < k' \<and> lc' (streamId ch) = Some (Date_now E j)"
        then obtain j where "k + 3 < j" "j < k'" "lc' (streamId ch) = Some (Date_now E j)" by blast
        then have "k < j \<and> j < k' \<and> lc' (streamId ch) = Some (Date_now E j)" by simp
        then show ?thesis by blast
      qed
    qed
    have tail: "\<exists>j. k < j \<and> j < k' \<and> lc' sid = Some (Date_now E j)"
      if "FetchOlderHistory sid part t lim pw \<in> set rqs1" for sid part t lim pw
    proof -
      from IH that obtain j where "k + 3 < j" "j < k'" "lc' sid = Some (Date_now E j)" by blast
      then have "k < j \<and> j < k' \<and> lc' sid = Some (Date_now E j)" by simp
      then show ?thesis by blast
    qed
    have "k \<le> k'" using k' by simp
    moreover have "\<forall>sid part t lim pw. FetchOlderHistory sid part t lim pw \<in> set rqs \<longrightarrow>
        (\<exists>j. k < j \<and> j < k' \<and> lc' sid = Some (Date_now E j))"
      unfolding rqs using head tail by auto
    ultimately show ?thesis using lc by blast
  qed
qed

text \<open>
  Claim C8. Let a cycle start with the guard free. Whatever the fetches answer:

  \<^item> no rejection of the transport comes out of the cycle, and the cycle returns normally
    when the cursor is not negative;
  \<^item> the guard is held at every moment of the cycle that the log records, and it is free
    when the cycle ends;
  \<^item> the fetches that the cycle issues are the ones the specification asks for
    (\<open>expectedChecks\<close>): one for every channel of the batch that is outside its
    cool-down at its turn, in the order of the batch, with the clock reading of its turn
    as the time bound; the times of the last checks at the end of the cycle are the
    ones of the specification as well. The answers of the fetches have no part in that,
    so a failed fetch takes no later channel of the batch away from the cycle;
  \<^item> every channel whose history the cycle has fetched, with or without success, ends
    the cycle with \<open>lastChecked\<close> at a clock reading taken during this cycle;
  \<^item> a check whose fetch is rejected fails with that error and leaves the channel with
    \<open>lastChecked\<close> at the clock reading taken after the failure, and a channel whose
    \<open>lastChecked\<close> is less than the minimum poll interval before the clock reading of its
    turn is passed over without a fetch.
\<close>

theorem C8_fetch_failure_contained:
  assumes guard: "\<not> isPolling (fst s)"
  shows "(\<forall>msg. fst (pollBackgroundChannels E s) \<noteq> Inl (Rejected msg)) \<and>
    (0 \<le> pollIndex (fst s) \<longrightarrow> fst (pollBackgroundChannels E s) = Inr ()) \<and>
    \<not> isPolling (fst (snd (pollBackgroundChannels E s))) \<and>
    (\<forall>x \<in> set (added s (snd (pollBackgroundChannels E s))). isPolling (snd x)) \<and>
    fetches (added s (snd (pollBackgroundChannels E s))) =
      fst (expectedChecks E (config (fst s)) (lastCheckedOf (fst s)) (ticks (snd s))
           (reached (fst (selectBatch (POLL_BATCH_SIZE (config (fst s))) (pollIndex (fst s))
              (backgroundChannels (getAllChannels E) (activeChannelId (fst s))))))) \<and>
    lastCheckedOf (fst (snd (pollBackgroundChannels E s))) =
      fst (snd (expectedChecks E (config (fst s)) (lastCheckedOf (fst s)) (ticks (snd s))
           (reached (fst (selectBatch (POLL_BATCH_SIZE (config (fst s))) (pollIndex (fst s))
              (backgroundChannels (getAllChannels E) (activeChannelId (fst s)))))))) \<and>
    fetches (added s (snd (pollBackgroundChannels (E\<lparr>fetchOlderHistory := f\<rparr>) s))) =
      fetches (added s (snd (pollBackgroundChannels E s))) \<and>
    lastCheckedOf (fst (snd (pollBackgroundChannels (E\<lparr>fetchOlderHistory := f\<rparr>) s))) =
      lastCheckedOf (fst (snd (pollBackgroundChannels E s))) \<and>
    (\<forall>sid part t lim pw.
       FetchOlderHistory sid part t lim pw \<in> set (fetches (added s (snd (pollBackgroundChannels E s)))) \<longrightarrow>
       (\<exists>j. ticks (snd s) < j \<and> j < ticks (snd (snd (pollBackgroundChannels E s))) \<and>
            lastCheckedOf (fst (snd (pollBackgroundChannels E s))) sid = Some (Date_now E j))) \<and>
    (\<forall>ch s1 e.
       fetchOlderHistory E (streamId ch) 0 (Date_now E (ticks (snd s1)))
         (ACTIVITY_CHECK_MESSAGES (config (fst s1))) (orNull (password ch)) = Inl e \<longrightarrow>
       fst (checkChannelActivity E ch s1) = Inl e \<and>
       map_option lastChecked (channelActivity (fst (snd (checkChannelActivity E ch s1))) (streamId ch)) =
         Some (Date_now E (Suc (ticks (snd s1))))) \<and>
    (\<forall>ch s1 a isLast.
       channelActivity (fst s1) (streamId ch) = Some a \<and>
       Date_now E (ticks (snd s1)) - lastChecked a < MIN_POLL_INTERVAL (config (fst s1)) \<longrightarrow>
       fetches (trace (snd (pollOne E ch isLast s1))) = fetches (trace (snd s1)))"
proof -
  let ?E' = "E\<lparr>fetchOlderHistory := f\<rparr>"
  let ?s' = "snd (pollBackgroundChannels E s)"
  let ?chs = "reached (fst (selectBatch (POLL_BATCH_SIZE (config (fst s))) (pollIndex (fst s))
              (backgroundChannels (getAllChannels E) (activeChannelId (fst s)))))"
  let ?ex = "expectedChecks E (config (fst s)) (lastCheckedOf (fst s)) (ticks (snd s)) ?chs"
  note ex = poll_expected [OF guard, of E]
  have same: "expectedChecks ?E' cfg lc k chs = expectedChecks E cfg lc k chs" for cfg lc k chs
    by (induction chs arbitrary: lc k) simp_all
  have ex': "lastCheckedOf (fst (snd (pollBackgroundChannels ?E' s))) = fst (snd ?ex)"
    using poll_expected [OF guard, of ?E'] by (simp add: same)
  have c1: "\<forall>msg. fst (pollBackgroundChannels E s) \<noteq> Inl (Rejected msg)"
    by (simp add: poll_no_rejection)
  have c2: "0 \<le> pollIndex (fst s) \<longrightarrow> fst (pollBackgroundChannels E s) = Inr ()"
    by (simp add: poll_result)
  have c3: "\<not> isPolling (fst ?s')"
    by (rule poll_guard [OF guard])
  have c4: "\<forall>x \<in> set (added s ?s'). isPolling (snd x)"
    by (rule poll_guard_held [OF guard])
  have c5: "fetches (added s ?s') = fst ?ex" and c6: "lastCheckedOf (fst ?s') = fst (snd ?ex)"
    and t: "ticks (snd ?s') = snd (snd ?ex)"
    using ex by blast+
  have c7: "fetches (added s (snd (pollBackgroundChannels ?E' s))) = fetches (added s ?s')"
    by (rule poll_independent)
  have c8: "lastCheckedOf (fst (snd (pollBackgroundChannels ?E' s))) = lastCheckedOf (fst ?s')"
    using ex' c6 by simp
  have c9: "\<forall>sid part t lim pw.
       FetchOlderHistory sid part t lim pw \<in> set (fetches (added s ?s')) \<longrightarrow>
       (\<exists>j. ticks (snd s) < j \<and> j < ticks (snd ?s') \<and>
            lastCheckedOf (fst ?s') sid = Some (Date_now E j))"
    unfolding c5 c6 t
    using expected_range [of E "config (fst s)" "lastCheckedOf (fst s)" "ticks (snd s)" ?chs
        "fst ?ex" "fst (snd ?ex)" "snd (snd ?ex)"]
    by simp
  have c10: "\<forall>ch s1 e.
       fetchOlderHistory E (streamId ch) 0 (Date_now E (ticks (snd s1)))
         (ACTIVITY_CHECK_MESSAGES (config (fst s1))) (orNull (password ch)) = Inl e \<longrightarrow>
       fst (checkChannelActivity E ch s1) = Inl e \<and>
       map_option lastChecked (channelActivity (fst (snd (checkChannelActivity E ch s1))) (streamId ch)) =
         Some (Date_now E (Suc (ticks (snd s1))))"
    by (simp add: check_fail)
  have c11: "\<forall>ch s1 a isLast.
       channelActivity (fst s1) (streamId ch) = Some a \<and>
       Date_now E (ticks (snd s1)) - lastChecked a < MIN_POLL_INTERVAL (config (fst s1)) \<longrightarrow>
       fetches (trace (snd (pollOne E ch isLast s1))) = fetches (trace (snd s1))"
  proof (intro allI impI)
    fix ch :: channel and s1 :: state and a isLast
    assume "channelActivity (fst s1) (streamId ch) = Some a \<and>
       Date_now E (ticks (snd s1)) - lastChecked a < MIN_POLL_INTERVAL (config (fst s1))"
    then have "Date_now E (ticks (snd s1)) -
             (case channelActivity (fst s1) (streamId ch) of None \<Rightarrow> 0 | Some a \<Rightarrow> lastChecked a)
           < MIN_POLL_INTERVAL (config (fst s1))"
      by simp
    from pollOne_skip [OF this]
    show "fetches (trace (snd (pollOne E ch isLast s1))) = fetches (trace (snd s1))"
      by simp
  qed
  from c1 c2 c3 c4 c5 c6 c7 c8 c9 c10 c11 show ?thesis by blast
qed


text \<open>
  A run for claim C8.
  The cycle of the scenario above against a backend that rejects every fetch. The cycle
  returns normally with the guard free; the guard was held at each of the ten logged
  moments; the three channels of the batch are fetched in order although each fetch
  fails; and each of them is left with \<open>lastChecked\<close> at the reading after its fetch.
\<close>

theorem C8_scenario:
  "fst (pollBackgroundChannels (poll_env\<lparr>fetchOlderHistory := offline\<rparr>) poll_state) = Inr () \<and>
   \<not> isPolling (fst (snd (pollBackgroundChannels (poll_env\<lparr>fetchOlderHistory := offline\<rparr>) poll_state))) \<and>
   map (\<lambda>x. isPolling (snd x)) (added poll_state
       (snd (pollBackgroundChannels (poll_env\<lparr>fetchOlderHistory := offline\<rparr>) poll_state))) =
     replicate 10 True \<and>
   fetches (added poll_state
       (snd (pollBackgroundChannels (poll_env\<lparr>fetchOlderHistory := offline\<rparr>) poll_state))) =
     [FetchOlderHistory ''e'' 0 50001 3 None, FetchOlderHistory ''a'' 0 50004 3 None,
      FetchOlderHistory ''b'' 0 50007 3 None] \<and>
   map (lastCheckedOf (fst (snd (pollBackgroundChannels (poll_env\<lparr>fetchOlderHistory := offline\<rparr>)
          poll_state)))) [''e'', ''a'', ''b'', ''c''] =
     [Some 50002, Some 50005, Some 50008, None]"
proof -
  let ?E = "poll_env\<lparr>fetchOlderHistory := offline\<rparr>"
  have guard: "\<not> isPolling (fst poll_state)" and cursor: "0 \<le> pollIndex (fst poll_state)"
    by (simp_all add: poll_state_def fresh_def initial_manager_def)
  note th = C8_fetch_failure_contained [OF guard, of ?E]
  have sel: "reached (fst (selectBatch (POLL_BATCH_SIZE (config (fst poll_state)))
        (pollIndex (fst poll_state))
        (backgroundChannels (getAllChannels ?E) (activeChannelId (fst poll_state))))) =
      [chan ''e'' [], chan ''a'' [], chan ''b'' []]"
    by (simp add: poll_defs poll_env_def poll_state_def registry_env_def five_channels_def
      quiet_env_def fresh_def initial_manager_def default_config_def chan_def)
  have lc0: "lastCheckedOf (fst poll_state) = Map.empty"
    by (rule ext) (simp add: lastCheckedOf_def poll_state_def fresh_def initial_manager_def)
  have ex: "expectedChecks ?E (config (fst poll_state)) Map.empty
        (ticks (snd poll_state)) [chan ''e'' [], chan ''a'' [], chan ''b'' []] =
      ([FetchOlderHistory ''e'' 0 50001 3 None, FetchOlderHistory ''a'' 0 50004 3 None,
        FetchOlderHistory ''b'' 0 50007 3 None],
       Map.empty(''e'' \<mapsto> 50002, ''a'' \<mapsto> 50005, ''b'' \<mapsto> 50008), 9)"
    by (simp add: poll_env_def poll_state_def registry_env_def quiet_env_def fresh_def
      initial_manager_def default_config_def chan_def orNull_def falsy_def)
  have a: "fst (pollBackgroundChannels ?E poll_state) = Inr () \<and>
      \<not> isPolling (fst (snd (pollBackgroundChannels ?E poll_state)))"
    using th cursor by blast
  have b: "fetches (added poll_state (snd (pollBackgroundChannels ?E poll_state))) =
     [FetchOlderHistory ''e'' 0 50001 3 None, FetchOlderHistory ''a'' 0 50004 3 None,
      FetchOlderHistory ''b'' 0 50007 3 None]"
    using th unfolding sel lc0 ex by simp
  have "lastCheckedOf (fst (snd (pollBackgroundChannels ?E poll_state))) =
      Map.empty(''e'' \<mapsto> 50002, ''a'' \<mapsto> 50005, ''b'' \<mapsto> 50008)"
    using th unfolding sel lc0 ex by simp
  then have c: "map (lastCheckedOf (fst (snd (pollBackgroundChannels ?E poll_state))))
      [''e'', ''a'', ''b'', ''c''] = [Some 50002, Some 50005, Some 50008, None]"
    by simp
  have d: "map (\<lambda>x. isPolling (snd x)) (added poll_state (snd (pollBackgroundChannels ?E poll_state))) =
     replicate 10 True"
    by (simp add: poll_defs run_defs poll_env_def poll_state_def registry_env_def five_channels_def
      quiet_env_def fresh_def initial_manager_def default_config_def chan_def offline_def
      numeral_eq_Suc)
  from a b c d show ?thesis by blast
qed

subsection \<open>The cursor after a cycle\<close>








subsection \<open>Cycles without a skip\<close>













section \<open>What the operations return\<close>










section \<open>Downgrading a channel\<close>









end
